theory Spec2Isabelle
  imports Main "HOL-Library.Word"
begin

section \<open>The hash-tree directory of htree\_implementation.c and htree\_benchmark.c\<close>

text \<open>
  Both files declare the same structures and the same functions \<open>hash_filename\<close>,
  \<open>init_htree_directory\<close>, \<open>add_entry_block\<close>, \<open>find_entry_block\<close> and
  \<open>insert_file\<close>. htree\_benchmark.c adds a NULL check after every allocation and the
  function \<open>find_file\<close>; htree\_implementation.c has neither. The model below takes the
  file as a parameter (\<open>source_file\<close>): the branches guarded by \<open>Benchmark\<close> are the
  lines that exist in htree\_benchmark.c only, and where htree\_implementation.c goes on
  with a NULL pointer the model returns the fault \<open>NullDeref\<close>.
\<close>

subsection \<open>Machine types and layout constants\<close>

type_synonym u8 = "8 word"
type_synonym u16 = "16 word"
type_synonym u32 = "32 word"

text \<open>
  A C \<open>char\<close> is one byte. Whether plain \<open>char\<close> is signed is fixed by the platform, not
  by the source, so it is a field of the configuration. A \<open>const char*\<close> argument is
  modelled by the bytes that follow the pointer; the terminating NUL is the first zero
  byte, or the end of the list.
\<close>

datatype source_file = Implementation | Benchmark

record config =
  src_file :: source_file
  char_signed :: bool

definition BLOCK_SIZE :: nat where
  "BLOCK_SIZE = 4096"

definition MAX_FILENAME :: nat where
  "MAX_FILENAME = 255"

text \<open>
  \<open>sizeof\<close> under the usual rules (4-byte \<open>uint32_t\<close>, natural alignment):
  the header is three \<open>uint32_t\<close>; a directory entry is 4 + 2 + 1 + 1 + 255 = 263 bytes
  rounded up to its 4-byte alignment; an index entry is two \<open>uint32_t\<close>.
\<close>

definition sizeof_block_header :: nat where
  "sizeof_block_header = 4 + 4 + 4"

definition sizeof_dir_entry :: nat where
  "sizeof_dir_entry = ((4 + 2 + 1 + 1 + MAX_FILENAME + 3) div 4) * 4"

definition sizeof_index_entry :: nat where
  "sizeof_index_entry = 4 + 4"

definition MAX_ENTRIES_PER_BLOCK :: nat where
  "MAX_ENTRIES_PER_BLOCK = (BLOCK_SIZE - sizeof_block_header) div sizeof_dir_entry"

definition MAX_INDEX_ENTRIES :: nat where
  "MAX_INDEX_ENTRIES = (BLOCK_SIZE - sizeof_block_header) div sizeof_index_entry"

subsection \<open>hash\_filename\<close>

text \<open>
  \<open>*name\<close> is a \<open>char\<close>; in \<open>hash + *name\<close> it is promoted to \<open>int\<close> and converted to
  \<open>uint32_t\<close>: sign-extended where \<open>char\<close> is signed, zero-extended otherwise.
\<close>

definition char_to_u32 :: "bool \<Rightarrow> u8 \<Rightarrow> u32" where
  "char_to_u32 sg c = (if sg then scast c else ucast c)"

fun hash_loop :: "bool \<Rightarrow> u32 \<Rightarrow> u8 list \<Rightarrow> u32" where
  "hash_loop sg hash [] = hash"
| "hash_loop sg hash (c # name) =
     (if c = 0 then hash
      else hash_loop sg (push_bit 5 hash + hash + char_to_u32 sg c) name)"

definition hash_filename :: "bool \<Rightarrow> u8 list \<Rightarrow> u32" where
  "hash_filename sg name = hash_loop sg 0 name"

text \<open>The string a \<open>const char*\<close> denotes: the bytes before the first NUL.\<close>

definition cstring :: "u8 list \<Rightarrow> u8 list" where
  "cstring mem = takeWhile (\<lambda>c. c \<noteq> 0) mem"

text \<open>
  The accumulator in the specification's words: \<open>h = 0; for each byte b: h = (h << 5) + h + b\<close>
  with 32-bit wrap-around. It is applied to the bytes of the name as numbers from 0 to
  255 (\<open>map ucast\<close>).
\<close>

definition spec_hash :: "u32 list \<Rightarrow> u32" where
  "spec_hash bs = foldl (\<lambda>h b. push_bit 5 h + h + b) 0 bs"


subsection \<open>Structures\<close>

text \<open>
  The structures of both files, field for field. Arrays whose slots the code fills one by
  one are lists of options: \<open>None\<close> is a slot that \<open>malloc\<close> or \<open>realloc\<close> handed out
  and nothing has written yet. \<open>data.entries\<close> has \<open>MAX_ENTRIES_PER_BLOCK\<close> slots and
  \<open>data.indices\<close> has \<open>MAX_INDEX_ENTRIES\<close>. The two members of the union share storage
  in C; no function of either file reads or writes \<open>indices\<close>, and \<open>entries\<close> is written
  in entry blocks only, so the overlap is never observed and the model keeps the two views
  as two fields. \<open>name\<close> is the buffer \<open>char name[MAX_FILENAME]\<close>, 255 bytes with no room
  for a terminator after a 255-byte name.

  \<open>entry_blocks\<close> is the array of block pointers together with the blocks they point to:
  every block comes from its own \<open>malloc\<close>, so two slots never alias and a pointer to a
  block is its index in the array. The NULL array is the empty list.
\<close>

record block_header =
  block_type :: u32
  entry_count :: u32
  free_space :: u32

record dir_entry =
  inode :: u32
  rec_len :: u16
  name_len :: u8
  file_type :: u8
  name :: "u8 list"

record index_entry =
  hash :: u32
  block_number :: u32

record htree_block =
  header :: block_header
  entries :: "dir_entry option list"
  indices :: "index_entry option list"

record htree_directory =
  root_block :: htree_block
  index_blocks :: "htree_block option list"
  entry_blocks :: "htree_block option list"
  num_index_blocks :: u32
  num_entry_blocks :: u32

text \<open>
  Undefined behaviour is a value: dereferencing NULL, indexing outside an array, reading
  a slot nothing has written. A function that runs into one returns \<open>Inl\<close> of it and no
  state, since C gives the rest of the run no meaning.

  Whether an allocation succeeds is up to the environment: each call of \<open>insert_file\<close>
  is given the answers \<open>realloc\<close> and \<open>malloc\<close> would give during that call, if asked.
\<close>

datatype fault = NullDeref | OutOfBounds | UninitRead

record allocator =
  realloc_ok :: bool
  malloc_ok :: bool

text \<open>
  \<open>read_slot xs i\<close> is the read \<open>xs[i]\<close> of an initialised slot. \<open>realloc_slots xs n\<close> is
  the array after a successful \<open>realloc\<close> to \<open>n\<close> slots: the old contents up to \<open>n\<close>, new
  slots unwritten. (The size \<open>n * sizeof(struct htree_block*)\<close> is computed in \<open>size_t\<close>
  and is taken not to overflow.)
\<close>

definition read_slot :: "'a option list \<Rightarrow> nat \<Rightarrow> fault + 'a" where
  "read_slot xs i =
     (if xs = [] then Inl NullDeref
      else if i < length xs
      then (case xs ! i of None \<Rightarrow> Inl UninitRead | Some x \<Rightarrow> Inr x)
      else Inl OutOfBounds)"

definition realloc_slots :: "'a option list \<Rightarrow> nat \<Rightarrow> 'a option list" where
  "realloc_slots xs n = take n xs @ replicate (n - length xs) None"

text \<open>
  A block as \<open>malloc\<close> returns it and the three header assignments leave it
  (\<open>init_htree_directory\<close> with type 1, \<open>add_entry_block\<close> with type 3).
  \<open>fresh_directory\<close> is the directory \<open>init_htree_directory\<close> returns when both of its
  allocations succeed.
\<close>

definition new_block :: "u32 \<Rightarrow> htree_block" where
  "new_block t =
     \<lparr>header = \<lparr>block_type = t, entry_count = 0,
                 free_space = of_nat (BLOCK_SIZE - sizeof_block_header)\<rparr>,
      entries = replicate MAX_ENTRIES_PER_BLOCK None,
      indices = replicate MAX_INDEX_ENTRIES None\<rparr>"

definition fresh_directory :: htree_directory where
  "fresh_directory =
     \<lparr>root_block = new_block 1, index_blocks = [], entry_blocks = [],
      num_index_blocks = 0, num_entry_blocks = 0\<rparr>"

definition init_htree_directory :: "source_file \<Rightarrow> bool \<Rightarrow> bool \<Rightarrow> fault + htree_directory option" where
  "init_htree_directory sf dir_ok root_ok =
     (if \<not> dir_ok then (if sf = Benchmark then Inr None else Inl NullDeref)
      else if \<not> root_ok then (if sf = Benchmark then Inr None else Inl NullDeref)
      else Inr (Some fresh_directory))"

text \<open>
  \<open>add_entry_block\<close>, statement by statement: the counter is incremented, then
  \<open>entry_blocks\<close> is assigned the result of \<open>realloc\<close> (NULL on failure); htree\_benchmark.c
  returns NULL here if the array is NULL. Then the block is allocated; on failure
  htree\_benchmark.c decrements the counter and returns NULL, htree\_implementation.c
  writes the header through NULL. Last, the block is stored at index
  \<open>num_entry_blocks - 1\<close>. The result is the directory and the returned pointer.
\<close>

definition add_entry_block ::
  "source_file \<Rightarrow> allocator \<Rightarrow> htree_directory \<Rightarrow> fault + (htree_directory \<times> nat option)" where
  "add_entry_block sf a d =
     (let d1 = d\<lparr>num_entry_blocks := num_entry_blocks d + 1\<rparr>;
          d2 = d1\<lparr>entry_blocks :=
                    (if realloc_ok a
                     then realloc_slots (entry_blocks d1) (unat (num_entry_blocks d1))
                     else [])\<rparr>
      in if sf = Benchmark \<and> \<not> realloc_ok a then Inr (d2, None)
         else if \<not> malloc_ok a then
           (if sf = Benchmark
            then Inr (d2\<lparr>num_entry_blocks := num_entry_blocks d2 - 1\<rparr>, None)
            else Inl NullDeref)
         else
           (let k = unat (num_entry_blocks d2 - 1)
            in if k < length (entry_blocks d2)
               then Inr (d2\<lparr>entry_blocks := (entry_blocks d2)[k := Some (new_block 3)]\<rparr>, Some k)
               else Inl (if realloc_ok a then OutOfBounds else NullDeref)))"

text \<open>
  \<open>find_entry_block\<close>: the \<open>for\<close> loop from index \<open>i\<close> on, and the function itself, which
  starts it at 0. The parameter \<open>hash\<close> is not used in the body.
\<close>

function find_entry_block_from ::
  "source_file \<Rightarrow> allocator \<Rightarrow> htree_directory \<Rightarrow> u32 \<Rightarrow> fault + (htree_directory \<times> nat option)" where
  "find_entry_block_from sf a d i =
     (if i < num_entry_blocks d
      then (case read_slot (entry_blocks d) (unat i) of
              Inl f \<Rightarrow> Inl f
            | Inr block \<Rightarrow>
                if unat (entry_count (header block)) < MAX_ENTRIES_PER_BLOCK
                then Inr (d, Some (unat i))
                else find_entry_block_from sf a d (i + 1))
      else add_entry_block sf a d)"
  by pat_completeness auto
termination
  by (relation "measure (\<lambda>(sf, a, d, i). unat (num_entry_blocks d) - unat i)")
     (simp_all, unat_arith)

definition find_entry_block ::
  "source_file \<Rightarrow> allocator \<Rightarrow> htree_directory \<Rightarrow> u32 \<Rightarrow> fault + (htree_directory \<times> nat option)" where
  "find_entry_block sf a d h = find_entry_block_from sf a d 0"

subsection \<open>C strings\<close>

text \<open>
  \<open>strlen\<close> and \<open>strncpy(dst, src, n)\<close> (the \<open>n\<close> bytes written to \<open>dst\<close>: the string, then
  NULs up to \<open>n\<close>; no NUL at all if the string has \<open>n\<close> bytes or more). \<open>strcmp_buf buf s\<close>
  is \<open>strcmp(buf, s) == 0\<close> for a buffer of exactly \<open>length buf\<close> bytes: \<open>None\<close> when the
  comparison runs past the end of the buffer.
\<close>

fun strlen :: "u8 list \<Rightarrow> nat" where
  "strlen [] = 0"
| "strlen (c # s) = (if c = 0 then 0 else Suc (strlen s))"

fun strncpy :: "u8 list \<Rightarrow> nat \<Rightarrow> u8 list" where
  "strncpy src 0 = []"
| "strncpy [] (Suc n) = 0 # strncpy [] n"
| "strncpy (c # src) (Suc n) = (if c = 0 then 0 # strncpy [] n else c # strncpy src n)"

fun strcmp_buf :: "u8 list \<Rightarrow> u8 list \<Rightarrow> bool option" where
  "strcmp_buf [] s2 = None"
| "strcmp_buf (b # buf) [] = Some (b = 0)"
| "strcmp_buf (b # buf) (c # s2) =
     (if b \<noteq> c then Some False
      else if b = 0 then Some True
      else strcmp_buf buf s2)"

text \<open>
  \<open>insert_file\<close>: \<open>new_entry\<close> is the record the five assignments to \<open>entry\<close> produce
  (\<open>name_len\<close> is \<open>strlen(name)\<close> truncated to \<open>uint8_t\<close>); \<open>append_entry\<close> writes it to
  slot \<open>entry_count\<close> of the block and updates the header. htree\_benchmark.c returns
  without a change when \<open>find_entry_block\<close> returned NULL.
\<close>

definition new_entry :: "u8 list \<Rightarrow> u32 \<Rightarrow> dir_entry" where
  "new_entry nm ino =
     \<lparr>inode = ino,
      rec_len = of_nat sizeof_dir_entry,
      name_len = of_nat (strlen nm),
      file_type = 1,
      name = strncpy nm MAX_FILENAME\<rparr>"

definition append_entry :: "htree_block \<Rightarrow> dir_entry \<Rightarrow> fault + htree_block" where
  "append_entry block entry =
     (let c = unat (entry_count (header block))
      in if c < length (entries block)
         then Inr (block
                \<lparr>entries := (entries block)[c := Some entry],
                 header := (header block)
                   \<lparr>entry_count := entry_count (header block) + 1,
                    free_space := free_space (header block) - of_nat sizeof_dir_entry\<rparr>\<rparr>)
         else Inl OutOfBounds)"

definition insert_file ::
  "config \<Rightarrow> allocator \<Rightarrow> htree_directory \<Rightarrow> u8 list \<Rightarrow> u32 \<Rightarrow> fault + htree_directory" where
  "insert_file cfg a d nm ino =
     (let h = hash_filename (char_signed cfg) nm
      in case find_entry_block (src_file cfg) a d h of
           Inl f \<Rightarrow> Inl f
         | Inr (d1, None) \<Rightarrow> (if src_file cfg = Benchmark then Inr d1 else Inl NullDeref)
         | Inr (d1, Some k) \<Rightarrow>
             (case read_slot (entry_blocks d1) k of
                Inl f \<Rightarrow> Inl f
              | Inr block \<Rightarrow>
                  (case append_entry block (new_entry nm ino) of
                     Inl f \<Rightarrow> Inl f
                   | Inr block' \<Rightarrow>
                       Inr (d1\<lparr>entry_blocks := (entry_blocks d1)[k := Some block']\<rparr>))))"

text \<open>
  \<open>find_file\<close> (htree\_benchmark.c only): the inner loop over the records of a block from
  slot \<open>j\<close> on, the outer loop over the entry blocks from index \<open>i\<close> on, and the function.
  The pointer it returns is the pair (block index, slot index). It computes the hash and
  does not use it. The directory is returned with the result, so that what the call
  leaves of it can be stated.
\<close>

function find_in_block :: "htree_block \<Rightarrow> u8 list \<Rightarrow> u32 \<Rightarrow> fault + nat option" where
  "find_in_block block nm j =
     (if j < entry_count (header block)
      then (case read_slot (entries block) (unat j) of
              Inl f \<Rightarrow> Inl f
            | Inr entry \<Rightarrow>
                (case strcmp_buf (name entry) nm of
                   None \<Rightarrow> Inl OutOfBounds
                 | Some True \<Rightarrow> Inr (Some (unat j))
                 | Some False \<Rightarrow> find_in_block block nm (j + 1)))
      else Inr None)"
  by pat_completeness auto
termination
  by (relation "measure (\<lambda>(block, nm, j). unat (entry_count (header block)) - unat j)")
     (simp_all, unat_arith)

function find_file_from ::
  "htree_directory \<Rightarrow> u8 list \<Rightarrow> u32 \<Rightarrow> fault + (nat \<times> nat) option" where
  "find_file_from d nm i =
     (if i < num_entry_blocks d
      then (case read_slot (entry_blocks d) (unat i) of
              Inl f \<Rightarrow> Inl f
            | Inr block \<Rightarrow>
                (case find_in_block block nm 0 of
                   Inl f \<Rightarrow> Inl f
                 | Inr (Some j) \<Rightarrow> Inr (Some (unat i, j))
                 | Inr None \<Rightarrow> find_file_from d nm (i + 1)))
      else Inr None)"
  by pat_completeness auto
termination
  by (relation "measure (\<lambda>(d, nm, i). unat (num_entry_blocks d) - unat i)")
     (simp_all, unat_arith)

definition find_file ::
  "bool \<Rightarrow> htree_directory \<Rightarrow> u8 list \<Rightarrow> fault + (htree_directory \<times> (nat \<times> nat) option)" where
  "find_file sg d nm =
     (let h = hash_filename sg nm
      in case find_file_from d nm 0 of
           Inl f \<Rightarrow> Inl f
         | Inr r \<Rightarrow> Inr (d, r))"

definition entry_at :: "htree_directory \<Rightarrow> nat \<times> nat \<Rightarrow> fault + dir_entry" where
  "entry_at d p =
     (case read_slot (entry_blocks d) (fst p) of
        Inl f \<Rightarrow> Inl f
      | Inr block \<Rightarrow> read_slot (entries block) (snd p))"

text \<open>
  A run of \<open>insert_file\<close> calls, as in \<open>main\<close> and in the benchmark loop, each with the
  allocator's answers for that call. It stops at the first fault.
\<close>

type_synonym insertion = "allocator \<times> u8 list \<times> u32"

fun insert_all :: "config \<Rightarrow> htree_directory \<Rightarrow> insertion list \<Rightarrow> fault + htree_directory" where
  "insert_all cfg d [] = Inr d"
| "insert_all cfg d ((a, nm, ino) # ops) =
     (case insert_file cfg a d nm ino of
        Inl f \<Rightarrow> Inl f
      | Inr d' \<Rightarrow> insert_all cfg d' ops)"

subsection \<open>Notions of the specification\<close>

text \<open>
  The capacity invariant in the specification's words: \<open>entry_count * record_size +
  header_size <= block_size\<close> and \<open>entry_count <= capacity_for(block_type)\<close>, where
  the record kind follows the block type (3 is an entry block; 1 and 2, root and index,
  hold index records).
\<close>

definition record_size :: "u32 \<Rightarrow> nat" where
  "record_size t = (if t = 3 then sizeof_dir_entry else sizeof_index_entry)"

definition capacity_for :: "u32 \<Rightarrow> nat" where
  "capacity_for t = (BLOCK_SIZE - sizeof_block_header) div record_size t"

definition capacity_ok :: "htree_block \<Rightarrow> bool" where
  "capacity_ok b \<longleftrightarrow>
     unat (entry_count (header b)) * record_size (block_type (header b)) + sizeof_block_header
       \<le> BLOCK_SIZE
     \<and> unat (entry_count (header b)) \<le> capacity_for (block_type (header b))"

text \<open>
  The invariant the insertions keep: the root block is as created, there is no index
  block, and every entry block has at most \<open>MAX_ENTRIES_PER_BLOCK\<close> records and a
  \<open>free_space\<close> that accounts for them.
\<close>

definition entry_block_ok :: "htree_block \<Rightarrow> bool" where
  "entry_block_ok b \<longleftrightarrow>
     block_type (header b) = 3
     \<and> unat (entry_count (header b)) \<le> MAX_ENTRIES_PER_BLOCK
     \<and> length (entries b) = MAX_ENTRIES_PER_BLOCK
     \<and> unat (free_space (header b)) + unat (entry_count (header b)) * sizeof_dir_entry
         = BLOCK_SIZE - sizeof_block_header"

definition dir_inv :: "htree_directory \<Rightarrow> bool" where
  "dir_inv d \<longleftrightarrow>
     root_block d = new_block 1 \<and> index_blocks d = [] \<and> num_index_blocks d = 0
     \<and> (\<forall>b. Some b \<in> set (entry_blocks d) \<longrightarrow> entry_block_ok b)"

text \<open>What \<open>find_entry_block\<close> tests of the block at index \<open>j\<close>.\<close>

definition slot_full :: "htree_directory \<Rightarrow> nat \<Rightarrow> bool" where
  "slot_full d j \<longleftrightarrow>
     (\<exists>b. read_slot (entry_blocks d) j = Inr b
          \<and> \<not> unat (entry_count (header b)) < MAX_ENTRIES_PER_BLOCK)"

definition slot_free :: "htree_directory \<Rightarrow> nat \<Rightarrow> bool" where
  "slot_free d j \<longleftrightarrow>
     (\<exists>b. read_slot (entry_blocks d) j = Inr b
          \<and> unat (entry_count (header b)) < MAX_ENTRIES_PER_BLOCK)"

text \<open>
  Modelled from the spec: \<open>route(hash)\<close> scans the root block's index records and returns
  the \<open>block_number\<close> of the last record whose \<open>hash <= target\<close>; with no such
  record it signals \<open>NoEntryBlocks\<close> (here \<open>None\<close>). The root block's index records
  are the first \<open>entry_count\<close> slots of its \<open>indices\<close>.
\<close>

definition index_records :: "htree_block \<Rightarrow> index_entry list" where
  "index_records b =
     List.map_filter (\<lambda>s. s) (take (unat (entry_count (header b))) (indices b))"


text \<open>
  Modelled from the spec: the partition invariant. The boundaries, sorted by hash, cover
  \<open>[0, 2^32)\<close> without gaps (there is a boundary, and the least one is 0; the last range
  runs to the top) and without overlaps (no two boundaries are equal), and each range is
  mapped to an existing entry block.
\<close>

definition partition_invariant :: "index_entry list \<Rightarrow> nat \<Rightarrow> bool" where
  "partition_invariant recs n \<longleftrightarrow>
     recs \<noteq> []
     \<and> 0 \<in> set (map hash recs)
     \<and> distinct (map hash recs)
     \<and> list_all (\<lambda>r. unat (block_number r) < n) recs"

text \<open>
  Modelled from the spec: \<open>stats()\<close> reports \<open>entry_block_count\<close>,
  \<open>index_block_count\<close> and \<open>total_entries\<close>. No function of the source computes it;
  \<open>main\<close> prints the first component and the \<open>entry_count\<close> of block 0.
\<close>

definition slot_count :: "htree_block option \<Rightarrow> nat" where
  "slot_count s = (case s of None \<Rightarrow> 0 | Some b \<Rightarrow> unat (entry_count (header b)))"

definition total_entries :: "htree_directory \<Rightarrow> nat" where
  "total_entries d =
     sum_list (map slot_count (take (unat (num_entry_blocks d)) (entry_blocks d)))"

definition stats :: "htree_directory \<Rightarrow> nat \<times> nat \<times> nat" where
  "stats d = (unat (num_entry_blocks d), unat (num_index_blocks d), total_entries d)"

subsection \<open>The scan order of find\_file\<close>

text \<open>
  A position is a pair (block index, slot index), as the pointer \<open>find_file\<close> returns
  denotes one. \<open>stored d p\<close>: the position lies below the counters; \<open>compare_at\<close>: the
  outcome of \<open>strcmp\<close> on the record there; \<open>scanned_before\<close>: the order in which
  the two loops of \<open>find_file\<close> visit positions.
\<close>

definition compare_in :: "htree_block \<Rightarrow> nat \<Rightarrow> u8 list \<Rightarrow> bool option" where
  "compare_in b j nm =
     (case read_slot (entries b) j of Inl f \<Rightarrow> None | Inr e \<Rightarrow> strcmp_buf (name e) nm)"

definition compare_at :: "htree_directory \<Rightarrow> nat \<times> nat \<Rightarrow> u8 list \<Rightarrow> bool option" where
  "compare_at d p nm =
     (case entry_at d p of Inl f \<Rightarrow> None | Inr e \<Rightarrow> strcmp_buf (name e) nm)"

definition stored :: "htree_directory \<Rightarrow> nat \<times> nat \<Rightarrow> bool" where
  "stored d p \<longleftrightarrow>
     fst p < unat (num_entry_blocks d)
     \<and> (\<exists>b. read_slot (entry_blocks d) (fst p) = Inr b
            \<and> snd p < unat (entry_count (header b)))"

definition scanned_before :: "nat \<times> nat \<Rightarrow> nat \<times> nat \<Rightarrow> bool" where
  "scanned_before q p \<longleftrightarrow> fst q < fst p \<or> (fst q = fst p \<and> snd q < snd p)"

definition block_result :: "htree_directory \<Rightarrow> u8 list \<Rightarrow> nat \<Rightarrow> nat option \<Rightarrow> bool" where
  "block_result d nm i r \<longleftrightarrow>
     (\<exists>b. read_slot (entry_blocks d) i = Inr b \<and> find_in_block b nm 0 = Inr r)"

subsection \<open>Example states\<close>

text \<open>
  The entry block that holds exactly the records \<open>es\<close>, and the directory whose entry
  blocks hold exactly the record lists \<open>bss\<close>, for writing down concrete states.
\<close>

definition block_with :: "dir_entry list \<Rightarrow> htree_block" where
  "block_with es =
     \<lparr>header = \<lparr>block_type = 3, entry_count = of_nat (length es),
                 free_space = of_nat (BLOCK_SIZE - sizeof_block_header
                                        - length es * sizeof_dir_entry)\<rparr>,
      entries = map Some es @ replicate (MAX_ENTRIES_PER_BLOCK - length es) None,
      indices = replicate MAX_INDEX_ENTRIES None\<rparr>"

definition directory_with :: "dir_entry list list \<Rightarrow> htree_directory" where
  "directory_with bss =
     \<lparr>root_block = new_block 1, index_blocks = [],
      entry_blocks = map (\<lambda>es. Some (block_with es)) bss,
      num_index_blocks = 0, num_entry_blocks = of_nat (length bss)\<rparr>"

text \<open>The record an insertion writes.\<close>

definition entry_of :: "insertion \<Rightarrow> dir_entry" where
  "entry_of op = new_entry (fst (snd op)) (snd (snd op))"

definition ok_alloc :: allocator where
  "ok_alloc = \<lparr>realloc_ok = True, malloc_ok = True\<rparr>"

text \<open>
  Sixteen insertions of sixteen one-byte names (the bytes 1 to 16, inode equal to the
  byte), and the directory they produce: block 0 holds the first fifteen records, block 1
  the sixteenth.
\<close>

definition sixteen_insertions :: "insertion list" where
  "sixteen_insertions = map (\<lambda>i. (ok_alloc, [of_nat i], of_nat i)) [1..<17]"

definition fifteen_entries :: "dir_entry list" where
  "fifteen_entries = map (\<lambda>i. new_entry [of_nat i] (of_nat i)) [1..<16]"

definition sixteen_directory :: htree_directory where
  "sixteen_directory = directory_with [fifteen_entries, [new_entry [16] 16]]"

subsection \<open>Unfolding of the loops\<close>

text \<open>The loop equations are unfolded by hand, one iteration at a time.\<close>

declare find_entry_block_from.simps [simp del]
declare find_in_block.simps [simp del]
declare find_file_from.simps [simp del]

subsection \<open>Loop counters\<close>

lemma word_less_Suc: "(i :: 'a::len word) < n \<Longrightarrow> unat (i + 1) = Suc (unat i)"
proof -
  assume "i < n"
  then have "unat i < unat n"
    by (simp add: word_less_nat_alt)
  moreover have "unat n < 2 ^ LENGTH('a)"
    by (rule unsigned_less)
  ultimately have "unat i + 1 < 2 ^ LENGTH('a)"
    by linarith
  then have "unat i + unat (1 :: 'a word) < 2 ^ LENGTH('a)"
    by simp
  then have "unat (i + 1) = unat i + unat (1 :: 'a word)"
    by (simp only: unat_add_lem)
  then show ?thesis
    by simp
qed

subsection \<open>Properties of the hash\<close>

lemma hash_loop_foldl:
  "hash_loop sg h mem =
     foldl (\<lambda>h b. push_bit 5 h + h + b) h (map (char_to_u32 sg) (cstring mem))"
  by (induction mem arbitrary: h) (simp_all add: cstring_def)

lemma hash_step_33: "push_bit 5 h + h + b = h * 33 + (b :: u32)"
  by (simp add: push_bit_eq_mult)

text \<open>
  Where \<open>char\<close> is unsigned, or the name is ASCII, every byte enters the sum
  zero-extended; where \<open>char\<close> is signed, a byte from 0x80 on enters sign-extended.
\<close>

lemma not_bit7:
  assumes "(c :: u8) < 0x80"
  shows "\<not> bit c 7"
proof -
  from assms have "unat c < 128"
    by (simp add: word_less_nat_alt)
  then have "unat c div 2 ^ 7 = 0"
    by simp
  then have "\<not> bit (unat c) 7"
    by (simp add: bit_iff_odd)
  then show ?thesis
    by (simp add: bit_unsigned_iff)
qed

lemma char_to_u32_ascii:
  assumes "c < 0x80"
  shows "char_to_u32 sg c = ucast c"
proof (cases sg)
  case False
  then show ?thesis
    by (simp add: char_to_u32_def)
next
  case True
  have "(scast c :: u32) = ucast c"
  proof (rule bit_word_eqI)
    fix n
    assume "n < LENGTH(32)"
    have "bit c (min 7 n) \<longleftrightarrow> bit c n"
    proof (cases "n \<le> 7")
      case True
      then show ?thesis
        by (simp add: min_def)
    next
      case False
      then have "\<not> bit c n"
        using bit_imp_le_length [of c n] by auto
      with False not_bit7 [OF assms] show ?thesis
        by (simp add: min_def)
    qed
    with \<open>n < LENGTH(32)\<close> show "bit (scast c :: u32) n \<longleftrightarrow> bit (ucast c :: u32) n"
      by (simp add: bit_simps)
  qed
  with True show ?thesis
    by (simp add: char_to_u32_def)
qed

subsection \<open>Constants and slots\<close>

lemma init_htree_directory_ok: "init_htree_directory sf True True = Inr (Some fresh_directory)"
  by (simp add: init_htree_directory_def)

lemma MAX_ENTRIES_PER_BLOCK_15: "MAX_ENTRIES_PER_BLOCK = 15"
  by (simp add: MAX_ENTRIES_PER_BLOCK_def BLOCK_SIZE_def sizeof_block_header_def
      sizeof_dir_entry_def MAX_FILENAME_def)

lemma MAX_INDEX_ENTRIES_510: "MAX_INDEX_ENTRIES = 510"
  by (simp add: MAX_INDEX_ENTRIES_def BLOCK_SIZE_def sizeof_block_header_def
      sizeof_index_entry_def)

lemma sizeof_dir_entry_264: "sizeof_dir_entry = 264"
  by (simp add: sizeof_dir_entry_def MAX_FILENAME_def)

lemma read_slot_Inr: "read_slot xs i = Inr x \<longleftrightarrow> i < length xs \<and> xs ! i = Some x"
  by (auto simp: read_slot_def split: option.splits)

lemma read_slot_mem: "read_slot xs i = Inr x \<Longrightarrow> Some x \<in> set xs"
  by (metis read_slot_Inr nth_mem)

lemma set_realloc_slots: "Some x \<in> set (realloc_slots xs n) \<Longrightarrow> Some x \<in> set xs"
  by (auto simp: realloc_slots_def dest: in_set_takeD)

lemma set_update_Some: "Some x \<in> set (xs[k := Some y]) \<Longrightarrow> x = y \<or> Some x \<in> set xs"
  using set_update_subset_insert [of xs k "Some y"] by auto

lemma entry_block_ok_new: "entry_block_ok (new_block 3)"
  by (simp add: entry_block_ok_def new_block_def MAX_ENTRIES_PER_BLOCK_15 BLOCK_SIZE_def
      sizeof_block_header_def unat_of_nat)

lemma add_entry_block_inv:
  assumes "dir_inv d" and "add_entry_block sf a d = Inr (d1, r)"
  shows "dir_inv d1"
  using assms
  by (auto simp: add_entry_block_def dir_inv_def Let_def entry_block_ok_new
      split: if_splits dest!: set_update_Some set_realloc_slots)

lemma add_entry_block_Some:
  assumes "add_entry_block sf a d = Inr (d1, Some k)"
  shows "read_slot (entry_blocks d1) k = Inr (new_block 3)"
  using assms
  by (auto simp: add_entry_block_def Let_def read_slot_Inr split: if_splits)

lemma find_entry_block_from_inv:
  "dir_inv d \<Longrightarrow> find_entry_block_from sf a d i = Inr (d1, r) \<Longrightarrow> dir_inv d1"
proof (induction sf a d i rule: find_entry_block_from.induct)
  case (1 sf a d i)
  show ?case
  proof (cases "i < num_entry_blocks d")
    case False
    with "1.prems" show ?thesis
      by (simp add: find_entry_block_from.simps [of sf a d i] add_entry_block_inv)
  next
    case True
    with "1.prems" "1.IH" show ?thesis
      by (auto simp: find_entry_block_from.simps [of sf a d i] split: sum.splits if_splits)
  qed
qed

lemma find_entry_block_from_Some:
  "find_entry_block_from sf a d i = Inr (d1, Some k) \<Longrightarrow>
     \<exists>b. read_slot (entry_blocks d1) k = Inr b
         \<and> unat (entry_count (header b)) < MAX_ENTRIES_PER_BLOCK"
proof (induction sf a d i rule: find_entry_block_from.induct)
  case (1 sf a d i)
  show ?case
  proof (cases "i < num_entry_blocks d")
    case False
    with "1.prems" have "add_entry_block sf a d = Inr (d1, Some k)"
      by (simp add: find_entry_block_from.simps [of sf a d i])
    then have "read_slot (entry_blocks d1) k = Inr (new_block 3)"
      by (rule add_entry_block_Some)
    then show ?thesis
      by (simp add: new_block_def MAX_ENTRIES_PER_BLOCK_15)
  next
    case True
    with "1.prems" "1.IH" show ?thesis
      by (auto simp: find_entry_block_from.simps [of sf a d i] split: sum.splits if_splits)
  qed
qed

lemma append_entry_ok:
  assumes "entry_block_ok b" and "unat (entry_count (header b)) < MAX_ENTRIES_PER_BLOCK"
    and "append_entry b e = Inr b'"
  shows "entry_block_ok b'"
proof -
  have "entry_count (header b) < 15"
    using assms(2) by (simp add: word_less_nat_alt MAX_ENTRIES_PER_BLOCK_15)
  then have c: "unat (entry_count (header b) + 1) = Suc (unat (entry_count (header b)))"
    by (rule word_less_Suc)
  have "264 \<le> unat (free_space (header b))"
    using assms(1,2)
    by (simp add: entry_block_ok_def MAX_ENTRIES_PER_BLOCK_15 sizeof_dir_entry_264
        BLOCK_SIZE_def sizeof_block_header_def)
  then have "(264 :: u32) \<le> free_space (header b)"
    by (simp add: word_le_nat_alt)
  then have "unat (free_space (header b) - 264) = unat (free_space (header b)) - 264"
    by (simp add: unat_sub)
  with \<open>264 \<le> unat (free_space (header b))\<close>
  have f: "unat (free_space (header b) - of_nat sizeof_dir_entry) + sizeof_dir_entry
             = unat (free_space (header b))"
    by (simp add: sizeof_dir_entry_264)
  show ?thesis
    using assms c f
    by (auto simp: append_entry_def entry_block_ok_def Let_def split: if_splits)
qed

subsection \<open>The block invariant is kept by every insertion\<close>

lemma insert_file_inv:
  assumes "dir_inv d" and "insert_file cfg a d nm ino = Inr d'"
  shows "dir_inv d'"
proof -
  obtain d1 r where fe: "find_entry_block_from (src_file cfg) a d 0 = Inr (d1, r)"
    using assms(2)
    by (auto simp: insert_file_def find_entry_block_def split: sum.splits)
  have inv1: "dir_inv d1"
    using assms(1) fe by (rule find_entry_block_from_inv)
  show ?thesis
  proof (cases r)
    case None
    with assms(2) fe inv1 show ?thesis
      by (auto simp: insert_file_def find_entry_block_def split: if_splits)
  next
    case (Some k)
    with fe obtain b where b: "read_slot (entry_blocks d1) k = Inr b"
      and c: "unat (entry_count (header b)) < MAX_ENTRIES_PER_BLOCK"
      using find_entry_block_from_Some by blast
    from assms(2) fe Some b obtain b' where b': "append_entry b (new_entry nm ino) = Inr b'"
      and d': "d' = d1\<lparr>entry_blocks := (entry_blocks d1)[k := Some b']\<rparr>"
      by (auto simp: insert_file_def find_entry_block_def split: sum.splits)
    have "entry_block_ok b"
      using inv1 b by (auto simp: dir_inv_def dest: read_slot_mem)
    then have "entry_block_ok b'"
      using c b' by (rule append_entry_ok)
    with inv1 show ?thesis
      by (auto simp: d' dir_inv_def dest!: set_update_Some)
  qed
qed

lemma insert_all_inv:
  "dir_inv d \<Longrightarrow> insert_all cfg d ops = Inr d' \<Longrightarrow> dir_inv d'"
proof (induction ops arbitrary: d)
  case Nil
  then show ?case by simp
next
  case (Cons op ops)
  obtain a nm ino where op: "op = (a, nm, ino)"
    by (cases op) auto
  from Cons.prems(2) obtain d1 where s: "insert_file cfg a d nm ino = Inr d1"
    and r: "insert_all cfg d1 ops = Inr d'"
    by (auto simp: op split: sum.splits)
  from Cons.prems(1) s have "dir_inv d1"
    by (rule insert_file_inv)
  then show ?case
    using r by (rule Cons.IH)
qed

lemma dir_inv_fresh: "dir_inv fresh_directory"
  by (simp add: dir_inv_def fresh_directory_def)

lemma capacity_ok_root: "capacity_ok (new_block 1)"
  by (simp add: capacity_ok_def new_block_def capacity_for_def BLOCK_SIZE_def
      sizeof_block_header_def)

lemma capacity_ok_entry: "entry_block_ok b \<Longrightarrow> capacity_ok b"
  by (simp add: capacity_ok_def entry_block_ok_def capacity_for_def record_size_def
      MAX_ENTRIES_PER_BLOCK_15 sizeof_dir_entry_264 BLOCK_SIZE_def sizeof_block_header_def)

subsection \<open>find\_entry\_block is first fit\<close>

lemma find_entry_block_from_shape:
  "find_entry_block_from sf a d i = Inr (d1, r) \<Longrightarrow>
     (\<exists>k. r = Some k \<and> d1 = d \<and> unat i \<le> k \<and> k < unat (num_entry_blocks d)
          \<and> slot_free d k \<and> (\<forall>j. unat i \<le> j \<and> j < k \<longrightarrow> slot_full d j))
     \<or> (add_entry_block sf a d = Inr (d1, r)
          \<and> (\<forall>j. unat i \<le> j \<and> j < unat (num_entry_blocks d) \<longrightarrow> slot_full d j))"
proof (induction sf a d i rule: find_entry_block_from.induct)
  case (1 sf a d i)
  show ?case
  proof (cases "i < num_entry_blocks d")
    case False
    then have "unat (num_entry_blocks d) \<le> unat i"
      by (simp add: word_less_nat_alt)
    moreover from "1.prems" False have "add_entry_block sf a d = Inr (d1, r)"
      by (simp add: find_entry_block_from.simps [of sf a d i])
    ultimately show ?thesis
      by auto
  next
    case True
    then have lt: "unat i < unat (num_entry_blocks d)"
      by (simp add: word_less_nat_alt)
    from True have suc: "unat (i + 1) = Suc (unat i)"
      by (rule word_less_Suc)
    from "1.prems" True obtain b where b: "read_slot (entry_blocks d) (unat i) = Inr b"
      by (auto simp: find_entry_block_from.simps [of sf a d i] split: sum.splits)
    show ?thesis
    proof (cases "unat (entry_count (header b)) < MAX_ENTRIES_PER_BLOCK")
      case free: True
      with "1.prems" True b have "r = Some (unat i)" and "d1 = d"
        by (simp_all add: find_entry_block_from.simps [of sf a d i])
      with lt b free show ?thesis
        by (auto simp: slot_free_def)
    next
      case full: False
      with "1.prems" True b have "find_entry_block_from sf a d (i + 1) = Inr (d1, r)"
        by (simp add: find_entry_block_from.simps [of sf a d i])
      with "1.IH" [OF True b full] have
        "(\<exists>k. r = Some k \<and> d1 = d \<and> unat (i + 1) \<le> k \<and> k < unat (num_entry_blocks d)
          \<and> slot_free d k \<and> (\<forall>j. unat (i + 1) \<le> j \<and> j < k \<longrightarrow> slot_full d j))
         \<or> (add_entry_block sf a d = Inr (d1, r)
          \<and> (\<forall>j. unat (i + 1) \<le> j \<and> j < unat (num_entry_blocks d) \<longrightarrow> slot_full d j))"
        by simp
      moreover have "slot_full d (unat i)"
        using b full by (simp add: slot_full_def)
      then have "\<And>j P. unat i \<le> j \<Longrightarrow> (Suc (unat i) \<le> j \<Longrightarrow> slot_full d j) \<Longrightarrow> slot_full d j"
        by (metis le_antisym not_less_eq_eq)
      ultimately show ?thesis
        unfolding suc by (elim disjE exE conjE) (auto intro: Suc_leD)
    qed
  qed
qed

lemma length_realloc_slots: "length (realloc_slots xs n) = n"
  by (simp add: realloc_slots_def)

lemma add_entry_block_Some_shape:
  assumes "add_entry_block sf a d = Inr (d1, Some k)"
  shows "realloc_ok a \<and> malloc_ok a \<and> k = unat (num_entry_blocks d)
       \<and> unat (num_entry_blocks d + 1) = Suc k
       \<and> d1 = d\<lparr>num_entry_blocks := num_entry_blocks d + 1,
                entry_blocks := (realloc_slots (entry_blocks d) (Suc k))[k := Some (new_block 3)]\<rparr>"
proof -
  from assms have ok: "realloc_ok a" "malloc_ok a"
    by (auto simp: add_entry_block_def Let_def split: if_splits)
  from assms ok have k: "k = unat (num_entry_blocks d)"
    and lt: "k < unat (num_entry_blocks d + 1)"
    and d1: "d1 = d\<lparr>num_entry_blocks := num_entry_blocks d + 1,
                entry_blocks := (realloc_slots (entry_blocks d) (unat (num_entry_blocks d + 1)))
                                  [k := Some (new_block 3)]\<rparr>"
    by (auto simp: add_entry_block_def Let_def length_realloc_slots split: if_splits)
  from k lt have "num_entry_blocks d < num_entry_blocks d + 1"
    by (simp add: word_less_nat_alt)
  then have "unat (num_entry_blocks d + 1) = Suc k"
    unfolding k by (rule word_less_Suc)
  with ok k d1 show ?thesis
    by simp
qed

lemma add_entry_block_ok_Some:
  assumes "add_entry_block sf a d = Inr (d1, r)" and "realloc_ok a" and "malloc_ok a"
  shows "\<exists>k. r = Some k"
  using assms by (auto simp: add_entry_block_def Let_def split: if_splits)

subsection \<open>Example states\<close>

lemma new_block_3: "new_block 3 = block_with []"
  by (simp add: new_block_def block_with_def)

lemma entry_count_block_with:
  "length es \<le> MAX_ENTRIES_PER_BLOCK \<Longrightarrow> unat (entry_count (header (block_with es))) = length es"
  by (simp add: block_with_def MAX_ENTRIES_PER_BLOCK_15 unat_of_nat)

lemma append_entry_block_with:
  assumes "length es < MAX_ENTRIES_PER_BLOCK"
  shows "append_entry (block_with es) e = Inr (block_with (es @ [e]))"
proof -
  let ?n = "length es"
  have c: "unat (entry_count (header (block_with es))) = ?n"
    using assms by (simp add: entry_count_block_with)
  have r: "replicate (MAX_ENTRIES_PER_BLOCK - ?n) (None :: dir_entry option)
             = None # replicate (MAX_ENTRIES_PER_BLOCK - Suc ?n) None"
    using assms by (simp add: Suc_diff_Suc flip: replicate_Suc)
  have e: "(entries (block_with es))[?n := Some e] = entries (block_with (es @ [e]))"
    by (simp add: block_with_def r list_update_append)
  have "Suc ?n * sizeof_dir_entry \<le> BLOCK_SIZE - sizeof_block_header"
    using assms
    by (simp add: MAX_ENTRIES_PER_BLOCK_15 sizeof_dir_entry_264 BLOCK_SIZE_def
        sizeof_block_header_def)
  then have "BLOCK_SIZE - sizeof_block_header - Suc ?n * sizeof_dir_entry + sizeof_dir_entry
             = BLOCK_SIZE - sizeof_block_header - ?n * sizeof_dir_entry"
    by simp
  then have "(of_nat (BLOCK_SIZE - sizeof_block_header - ?n * sizeof_dir_entry) :: u32)
      = of_nat (BLOCK_SIZE - sizeof_block_header - Suc ?n * sizeof_dir_entry)
          + of_nat sizeof_dir_entry"
    by (metis of_nat_add)
  then have f: "free_space (header (block_with es)) - of_nat sizeof_dir_entry
             = free_space (header (block_with (es @ [e])))"
    by (simp add: block_with_def)
  have h: "entry_count (header (block_with es)) + 1 = entry_count (header (block_with (es @ [e])))"
    by (simp add: block_with_def)
  have len: "?n < length (entries (block_with es))"
    using assms by (simp add: block_with_def)
  have "append_entry (block_with es) e
          = Inr (block_with es
              \<lparr>entries := entries (block_with (es @ [e])),
               header := (header (block_with es))
                 \<lparr>entry_count := entry_count (header (block_with (es @ [e]))),
                  free_space := free_space (header (block_with (es @ [e])))\<rparr>\<rparr>)"
    using len by (simp add: append_entry_def c e f h)
  also have "\<dots> = Inr (block_with (es @ [e]))"
    by (simp add: block_with_def)
  finally show ?thesis .
qed

lemmas eval_simps = insert_file_def find_entry_block_def 
      add_entry_block_def fresh_directory_def realloc_slots_def read_slot_def
      new_block_3 append_entry_block_with entry_count_block_with MAX_ENTRIES_PER_BLOCK_15 ok_alloc_def
      directory_with_def

lemma insert_file_fresh_with:
  assumes "realloc_ok a" and "malloc_ok a"
  shows "insert_file cfg a fresh_directory nm ino = Inr (directory_with [[new_entry nm ino]])"
  using assms by (simp add: eval_simps find_entry_block_from.simps [of _ _ _ 0])

lemma insert_file_single:
  assumes "length es < MAX_ENTRIES_PER_BLOCK"
  shows "insert_file cfg a (directory_with [es]) nm ino
           = Inr (directory_with [es @ [new_entry nm ino]])"
  using assms by (simp add: eval_simps find_entry_block_from.simps [of _ _ _ 0])

lemma insert_file_single_full:
  assumes "length es = MAX_ENTRIES_PER_BLOCK" and "realloc_ok a" and "malloc_ok a"
  shows "insert_file cfg a (directory_with [es]) nm ino
           = Inr (directory_with [es, [new_entry nm ino]])"
  using assms
  by (simp add: eval_simps find_entry_block_from.simps [of _ _ _ 0]
      find_entry_block_from.simps [of _ _ _ 1])

lemma insert_file_full_realloc_failure:
  assumes "length es = MAX_ENTRIES_PER_BLOCK"
  shows "insert_file \<lparr>src_file = Benchmark, char_signed = sg\<rparr>
           \<lparr>realloc_ok = False, malloc_ok = mo\<rparr> (directory_with [es]) nm ino
           = Inr ((directory_with [es])\<lparr>num_entry_blocks := 2, entry_blocks := []\<rparr>)"
  using assms
  by (simp add: insert_file_def find_entry_block_def find_entry_block_from.simps [of _ _ _ 0]
      find_entry_block_from.simps [of _ _ _ 1] add_entry_block_def read_slot_def
      entry_count_block_with directory_with_def)

lemma entry_of_triple: "entry_of (a, nm, ino) = new_entry nm ino"
  by (simp add: entry_of_def)

lemma insert_all_single:
  "length es + length ops \<le> MAX_ENTRIES_PER_BLOCK \<Longrightarrow>
     insert_all cfg (directory_with [es]) ops = Inr (directory_with [es @ map entry_of ops])"
proof (induction ops arbitrary: es)
  case Nil
  then show ?case by simp
next
  case (Cons op ops)
  obtain a nm ino where op: "op = (a, nm, ino)"
    by (cases op) auto
  from Cons.prems have "length es < MAX_ENTRIES_PER_BLOCK"
    by simp
  then have "insert_file cfg a (directory_with [es]) nm ino
           = Inr (directory_with [es @ [new_entry nm ino]])"
    by (rule insert_file_single)
  moreover have "insert_all cfg (directory_with [es @ [new_entry nm ino]]) ops
           = Inr (directory_with [(es @ [new_entry nm ino]) @ map entry_of ops])"
    using Cons.prems by (intro Cons.IH) simp
  ultimately show ?case
    by (simp add: op entry_of_triple)
qed

lemma insert_all_fresh:
  assumes "ops \<noteq> []" and "length ops \<le> MAX_ENTRIES_PER_BLOCK"
    and "realloc_ok (fst (hd ops))" and "malloc_ok (fst (hd ops))"
  shows "insert_all cfg fresh_directory ops = Inr (directory_with [map entry_of ops])"
proof -
  from assms(1) obtain a nm ino rest where ops: "ops = (a, nm, ino) # rest"
    by (cases ops) auto
  with assms have "insert_file cfg a fresh_directory nm ino
      = Inr (directory_with [[new_entry nm ino]])"
    by (simp add: insert_file_fresh_with)
  moreover have "insert_all cfg (directory_with [[new_entry nm ino]]) rest
      = Inr (directory_with [[new_entry nm ino] @ map entry_of rest])"
    using assms(2) by (intro insert_all_single) (simp add: ops)
  ultimately show ?thesis
    by (simp add: ops entry_of_triple)
qed

lemma index_records_new_block: "index_records (new_block t) = []"
  by (simp add: index_records_def new_block_def)

lemma insert_one_example:
  "insert_all cfg fresh_directory [(ok_alloc, [0x61], 1001)]
     = Inr (directory_with [[new_entry [0x61] 1001]])"
  by (simp add: insert_file_fresh_with ok_alloc_def)


subsection \<open>C strings\<close>

lemma strlen_cstring: "strlen s = length (cstring s)"
  by (induction s) (simp_all add: cstring_def)

lemma strncpy_Nil: "strncpy [] n = replicate n 0"
  by (induction n) simp_all

lemma strncpy_cstring:
  "strncpy s n = take n (cstring s) @ replicate (n - length (cstring s)) 0"
proof (induction s n rule: strncpy.induct)
  case (1 src)
  then show ?case by simp
next
  case (2 n)
  then show ?case by (simp add: cstring_def strncpy_Nil)
next
  case (3 c src n)
  then show ?case by (simp add: cstring_def strncpy_Nil)
qed

lemma cstring_Nil [simp]: "cstring [] = []"
  by (simp add: cstring_def)

lemma cstring_Cons:
  "cstring (c # s) = (if c = 0 then [] else c # cstring s)"
  by (simp add: cstring_def)

lemma strcmp_buf_zero: "strcmp_buf (0 # buf) q = Some (cstring q = [])"
  by (cases q) (auto simp: cstring_def)

lemma strcmp_buf_strncpy:
  "length (cstring s) < n \<or> length (cstring q) < n \<Longrightarrow>
     strcmp_buf (strncpy s n) q = Some (cstring s = cstring q)"
proof (induction s n arbitrary: q rule: strncpy.induct)
  case (1 src)
  then show ?case by simp
next
  case (2 n)
  show ?case
    by (auto simp: strcmp_buf_zero)
next
  case (3 c src n)
  show ?case
  proof (cases "c = 0")
    case True
    then show ?thesis
      by (auto simp: strcmp_buf_zero cstring_Cons)
  next
    case False
    show ?thesis
    proof (cases q)
      case Nil
      with False show ?thesis
        by (simp add: cstring_Cons)
    next
      case (Cons c' q')
      show ?thesis
      proof (cases "c = c'")
        case True
        with False Cons "3.prems" have "length (cstring src) < n \<or> length (cstring q') < n"
          by (simp add: cstring_Cons)
        with "3.IH"(2) [OF False] have "strcmp_buf (strncpy src n) q' = Some (cstring src = cstring q')"
          by simp
        with True False Cons show ?thesis
          by (simp add: cstring_Cons)
      next
        case ne: False
        with False Cons show ?thesis
          by (auto simp: cstring_Cons)
      qed
    qed
  qed
qed

lemma strcmp_new_entry:
  "length (cstring nm) < MAX_FILENAME \<Longrightarrow> strcmp_buf (name (new_entry nm ino)) nm = Some True"
  by (simp add: new_entry_def strcmp_buf_strncpy)

subsection \<open>The two ways an insertion commits\<close>

lemma realloc_slots_update:
  assumes "n \<le> length xs"
  shows "(realloc_slots xs (Suc n))[n := y] = take n xs @ [y]"
proof (rule nth_equalityI)
  show "length ((realloc_slots xs (Suc n))[n := y]) = length (take n xs @ [y])"
    using assms by (simp add: length_realloc_slots)
next
  fix i
  assume "i < length ((realloc_slots xs (Suc n))[n := y])"
  then have i: "i < Suc n"
    by (simp add: length_realloc_slots)
  show "(realloc_slots xs (Suc n))[n := y] ! i = (take n xs @ [y]) ! i"
  proof (cases "i = n")
    case True
    with assms show ?thesis
      by (simp add: length_realloc_slots nth_append)
  next
    case False
    with i have "i < n" by simp
    with assms show ?thesis
      by (simp add: realloc_slots_def nth_append)
  qed
qed

lemma slot_full_length: "slot_full d j \<Longrightarrow> j < length (entry_blocks d)"
  by (auto simp: slot_full_def read_slot_Inr)

lemma all_full_length:
  assumes "\<forall>j. j < n \<longrightarrow> slot_full d j"
  shows "n \<le> length (entry_blocks d)"
proof (cases n)
  case 0
  then show ?thesis by simp
next
  case (Suc m)
  with assms have "slot_full d m" by simp
  then have "m < length (entry_blocks d)" by (rule slot_full_length)
  with Suc show ?thesis by simp
qed

lemma append_entry_Inr:
  "append_entry b e = Inr b' \<longleftrightarrow>
     unat (entry_count (header b)) < length (entries b)
     \<and> b' = b\<lparr>entries := (entries b)[unat (entry_count (header b)) := Some e],
              header := (header b)\<lparr>entry_count := entry_count (header b) + 1,
                 free_space := free_space (header b) - of_nat sizeof_dir_entry\<rparr>\<rparr>"
  by (auto simp: append_entry_def Let_def)

lemma insert_file_cases:
  assumes ins: "insert_file cfg a d nm ino = Inr d'"
    and ok: "realloc_ok a" "malloc_ok a"
  shows "(\<exists>k b b'. k < unat (num_entry_blocks d) \<and> read_slot (entry_blocks d) k = Inr b
            \<and> unat (entry_count (header b)) < MAX_ENTRIES_PER_BLOCK
            \<and> (\<forall>j. j < k \<longrightarrow> slot_full d j)
            \<and> append_entry b (new_entry nm ino) = Inr b'
            \<and> d' = d\<lparr>entry_blocks := (entry_blocks d)[k := Some b']\<rparr>)
       \<or> (\<exists>b'. (\<forall>j. j < unat (num_entry_blocks d) \<longrightarrow> slot_full d j)
            \<and> unat (num_entry_blocks d + 1) = Suc (unat (num_entry_blocks d))
            \<and> append_entry (new_block 3) (new_entry nm ino) = Inr b'
            \<and> d' = d\<lparr>num_entry_blocks := num_entry_blocks d + 1,
                     entry_blocks := take (unat (num_entry_blocks d)) (entry_blocks d) @ [Some b']\<rparr>)"
proof -
  obtain d1 r where fe: "find_entry_block_from (src_file cfg) a d 0 = Inr (d1, r)"
    using ins by (auto simp: insert_file_def find_entry_block_def split: sum.splits)
  from find_entry_block_from_shape [OF fe]
  consider (fit) k where "r = Some k" "d1 = d" "k < unat (num_entry_blocks d)" "slot_free d k"
      "\<forall>j. j < k \<longrightarrow> slot_full d j"
    | (grow) "add_entry_block (src_file cfg) a d = Inr (d1, r)"
      "\<forall>j. j < unat (num_entry_blocks d) \<longrightarrow> slot_full d j"
    by auto
  then show ?thesis
  proof cases
    case fit
    from fit(4) obtain b where b: "read_slot (entry_blocks d) k = Inr b"
      "unat (entry_count (header b)) < MAX_ENTRIES_PER_BLOCK"
      by (auto simp: slot_free_def)
    from ins fe fit(1,2) b(1) obtain b' where "append_entry b (new_entry nm ino) = Inr b'"
      "d' = d\<lparr>entry_blocks := (entry_blocks d)[k := Some b']\<rparr>"
      by (auto simp: insert_file_def find_entry_block_def split: sum.splits)
    with fit b show ?thesis
      by blast
  next
    case grow
    from add_entry_block_ok_Some [OF grow(1) ok] obtain k where r: "r = Some k"
      by auto
    let ?n = "unat (num_entry_blocks d)"
    from add_entry_block_Some_shape [OF grow(1) [unfolded r]]
    have k: "k = ?n" and suc: "unat (num_entry_blocks d + 1) = Suc ?n"
      and d1: "d1 = d\<lparr>num_entry_blocks := num_entry_blocks d + 1,
                entry_blocks := (realloc_slots (entry_blocks d) (Suc ?n))[?n := Some (new_block 3)]\<rparr>"
      by simp_all
    have len: "?n \<le> length (entry_blocks d)"
      using grow(2) by (rule all_full_length)
    have blocks1: "entry_blocks d1 = take ?n (entry_blocks d) @ [Some (new_block 3)]"
      by (simp add: d1 realloc_slots_update [OF len])
    then have rd: "read_slot (entry_blocks d1) k = Inr (new_block 3)"
      using len by (simp add: read_slot_Inr k nth_append)
    from ins fe r rd obtain b' where b': "append_entry (new_block 3) (new_entry nm ino) = Inr b'"
      and d': "d' = d1\<lparr>entry_blocks := (entry_blocks d1)[k := Some b']\<rparr>"
      by (auto simp: insert_file_def find_entry_block_def split: sum.splits)
    have "(entry_blocks d1)[k := Some b'] = take ?n (entry_blocks d) @ [Some b']"
      using len by (simp add: blocks1 k list_update_append)
    with d' d1 have "d' = d\<lparr>num_entry_blocks := num_entry_blocks d + 1,
                     entry_blocks := take ?n (entry_blocks d) @ [Some b']\<rparr>"
      by simp
    with grow(2) suc b' show ?thesis
      by blast
  qed
qed

lemma append_entry_count:
  assumes "append_entry b e = Inr b'" and "unat (entry_count (header b)) < MAX_ENTRIES_PER_BLOCK"
  shows "unat (entry_count (header b')) = Suc (unat (entry_count (header b)))"
proof -
  have "entry_count (header b) < 15"
    using assms(2) by (simp add: word_less_nat_alt MAX_ENTRIES_PER_BLOCK_15)
  then have "unat (entry_count (header b) + 1) = Suc (unat (entry_count (header b)))"
    by (rule word_less_Suc)
  with assms(1) show ?thesis
    by (auto simp: append_entry_Inr)
qed

lemma insert_file_total_entries:
  assumes ins: "insert_file cfg a d nm ino = Inr d'"
    and ok: "realloc_ok a" "malloc_ok a"
  shows "total_entries d' = Suc (total_entries d)"
  using insert_file_cases [OF ins ok]
proof (elim disjE exE conjE)
  fix k b b'
  let ?n = "unat (num_entry_blocks d)"
  assume k: "k < ?n" and b: "read_slot (entry_blocks d) k = Inr b"
    and c: "unat (entry_count (header b)) < MAX_ENTRIES_PER_BLOCK"
    and b': "append_entry b (new_entry nm ino) = Inr b'"
    and d': "d' = d\<lparr>entry_blocks := (entry_blocks d)[k := Some b']\<rparr>"
  let ?xs = "map slot_count (take ?n (entry_blocks d))"
  from b have kl: "k < length (entry_blocks d)" and bk: "entry_blocks d ! k = Some b"
    by (simp_all add: read_slot_Inr)
  from k kl have kx: "k < length ?xs" by simp
  have old: "?xs ! k = unat (entry_count (header b))"
    using k kl bk by (simp add: slot_count_def)
  have "total_entries d' = sum_list (?xs[k := slot_count (Some b')])"
    by (simp add: total_entries_def d' take_update_swap map_update)
  also have "\<dots> = sum_list ?xs + slot_count (Some b') - ?xs ! k"
    using kx by (rule sum_list_update)
  also have "\<dots> = Suc (sum_list ?xs)"
    using append_entry_count [OF b' c] by (simp add: old slot_count_def)
  finally show ?thesis
    by (simp add: total_entries_def)
next
  fix b'
  let ?n = "unat (num_entry_blocks d)"
  assume full: "\<forall>j. j < ?n \<longrightarrow> slot_full d j"
    and suc: "unat (num_entry_blocks d + 1) = Suc ?n"
    and b': "append_entry (new_block 3) (new_entry nm ino) = Inr b'"
    and d': "d' = d\<lparr>num_entry_blocks := num_entry_blocks d + 1,
                     entry_blocks := take ?n (entry_blocks d) @ [Some b']\<rparr>"
  have len: "?n \<le> length (entry_blocks d)"
    using full by (rule all_full_length)
  have "unat (entry_count (header b')) = Suc (unat (entry_count (header (new_block 3))))"
    using b' by (rule append_entry_count) (simp add: new_block_def MAX_ENTRIES_PER_BLOCK_15)
  then have "slot_count (Some b') = 1"
    by (simp add: slot_count_def new_block_def)
  then show ?thesis
    using len by (simp add: total_entries_def d' suc)
qed

lemma entry_at_Inr:
  "entry_at d (i, j) = Inr e \<longleftrightarrow>
     (\<exists>b. read_slot (entry_blocks d) i = Inr b \<and> read_slot (entries b) j = Inr e)"
  by (auto simp: entry_at_def split: sum.splits)

lemma insert_file_stored:
  assumes ins: "insert_file cfg a d nm ino = Inr d'"
    and ok: "realloc_ok a" "malloc_ok a"
  shows "\<exists>p. entry_at d' p = Inr (new_entry nm ino)"
  using insert_file_cases [OF ins ok]
proof (elim disjE exE conjE)
  fix k b b'
  assume b: "read_slot (entry_blocks d) k = Inr b"
    and b': "append_entry b (new_entry nm ino) = Inr b'"
    and d': "d' = d\<lparr>entry_blocks := (entry_blocks d)[k := Some b']\<rparr>"
  from b have "read_slot (entry_blocks d') k = Inr b'"
    by (simp add: d' read_slot_Inr)
  moreover from b' have "read_slot (entries b') (unat (entry_count (header b))) = Inr (new_entry nm ino)"
    by (auto simp: append_entry_Inr read_slot_Inr)
  ultimately have "entry_at d' (k, unat (entry_count (header b))) = Inr (new_entry nm ino)"
    by (auto simp: entry_at_Inr)
  then show ?thesis ..
next
  fix b'
  let ?n = "unat (num_entry_blocks d)"
  assume full: "\<forall>j. j < ?n \<longrightarrow> slot_full d j"
    and b': "append_entry (new_block 3) (new_entry nm ino) = Inr b'"
    and d': "d' = d\<lparr>num_entry_blocks := num_entry_blocks d + 1,
                     entry_blocks := take ?n (entry_blocks d) @ [Some b']\<rparr>"
  have len: "?n \<le> length (entry_blocks d)"
    using full by (rule all_full_length)
  then have "read_slot (entry_blocks d') ?n = Inr b'"
    by (simp add: d' read_slot_Inr nth_append)
  moreover from b' have "read_slot (entries b') 0 = Inr (new_entry nm ino)"
    by (auto simp: append_entry_Inr read_slot_Inr new_block_def)
  ultimately have "entry_at d' (?n, 0) = Inr (new_entry nm ino)"
    by (auto simp: entry_at_Inr)
  then show ?thesis ..
qed

lemma cstring_replicate: "c \<noteq> 0 \<Longrightarrow> cstring (replicate n c) = replicate n c"
  by (simp add: cstring_def)

lemma stats_fresh: "stats fresh_directory = (0, 0, 0)"
  by (simp add: stats_def total_entries_def fresh_directory_def)

lemma stats_one: "stats (directory_with [[e]]) = (1, 0, 1)"
  by (simp add: stats_def total_entries_def directory_with_def slot_count_def
      entry_count_block_with MAX_ENTRIES_PER_BLOCK_15)

subsection \<open>find\_file returns the first match in scan order\<close>

lemma find_in_block_shape:
  "find_in_block b nm j = Inr r \<Longrightarrow>
     (r = None \<and> (\<forall>j'. unat j \<le> j' \<and> j' < unat (entry_count (header b))
                        \<longrightarrow> compare_in b j' nm = Some False))
     \<or> (\<exists>c. r = Some c \<and> unat j \<le> c \<and> c < unat (entry_count (header b))
            \<and> compare_in b c nm = Some True
            \<and> (\<forall>j'. unat j \<le> j' \<and> j' < c \<longrightarrow> compare_in b j' nm = Some False))"
proof (induction b nm j rule: find_in_block.induct)
  case (1 b nm j)
  show ?case
  proof (cases "j < entry_count (header b)")
    case False
    then have "unat (entry_count (header b)) \<le> unat j"
      by (simp add: word_less_nat_alt)
    moreover from "1.prems" False have "r = None"
      by (simp add: find_in_block.simps [of b nm j])
    ultimately show ?thesis
      by auto
  next
    case True
    then have lt: "unat j < unat (entry_count (header b))"
      by (simp add: word_less_nat_alt)
    from True have suc: "unat (j + 1) = Suc (unat j)"
      by (rule word_less_Suc)
    from "1.prems" True obtain e m where e: "read_slot (entries b) (unat j) = Inr e"
      and m: "strcmp_buf (name e) nm = Some m"
      by (auto simp: find_in_block.simps [of b nm j] split: sum.splits option.splits)
    then have cmp: "compare_in b (unat j) nm = Some m"
      by (simp add: compare_in_def)
    show ?thesis
    proof (cases m)
      case True
      with "1.prems" \<open>j < entry_count (header b)\<close> e m have "r = Some (unat j)"
        by (simp add: find_in_block.simps [of b nm j])
      with lt cmp True show ?thesis
        by auto
    next
      case False
      with "1.prems" \<open>j < entry_count (header b)\<close> e m
      have "find_in_block b nm (j + 1) = Inr r"
        by (simp add: find_in_block.simps [of b nm j])
      with "1.IH" [OF \<open>j < entry_count (header b)\<close> e m] False have
        "(r = None \<and> (\<forall>j'. unat (j + 1) \<le> j' \<and> j' < unat (entry_count (header b))
                        \<longrightarrow> compare_in b j' nm = Some False))
         \<or> (\<exists>c. r = Some c \<and> unat (j + 1) \<le> c \<and> c < unat (entry_count (header b))
            \<and> compare_in b c nm = Some True
            \<and> (\<forall>j'. unat (j + 1) \<le> j' \<and> j' < c \<longrightarrow> compare_in b j' nm = Some False))"
        by simp
      moreover have "compare_in b (unat j) nm = Some False"
        using cmp False by simp
      then have "\<And>j'. unat j \<le> j' \<Longrightarrow> (Suc (unat j) \<le> j' \<Longrightarrow> compare_in b j' nm = Some False)
          \<Longrightarrow> compare_in b j' nm = Some False"
        by (metis le_antisym not_less_eq_eq)
      ultimately show ?thesis
        unfolding suc by (elim disjE exE conjE) (auto intro: Suc_leD)
    qed
  qed
qed

lemma find_file_from_shape:
  "find_file_from d nm i = Inr r \<Longrightarrow>
     (r = None \<and> (\<forall>i'. unat i \<le> i' \<and> i' < unat (num_entry_blocks d)
                        \<longrightarrow> block_result d nm i' None))
     \<or> (\<exists>k c. r = Some (k, c) \<and> unat i \<le> k \<and> k < unat (num_entry_blocks d)
            \<and> block_result d nm k (Some c)
            \<and> (\<forall>i'. unat i \<le> i' \<and> i' < k \<longrightarrow> block_result d nm i' None))"
proof (induction d nm i rule: find_file_from.induct)
  case (1 d nm i)
  show ?case
  proof (cases "i < num_entry_blocks d")
    case False
    then have "unat (num_entry_blocks d) \<le> unat i"
      by (simp add: word_less_nat_alt)
    moreover from "1.prems" False have "r = None"
      by (simp add: find_file_from.simps [of d nm i])
    ultimately show ?thesis
      by auto
  next
    case True
    then have lt: "unat i < unat (num_entry_blocks d)"
      by (simp add: word_less_nat_alt)
    from True have suc: "unat (i + 1) = Suc (unat i)"
      by (rule word_less_Suc)
    from "1.prems" True obtain b m where b: "read_slot (entry_blocks d) (unat i) = Inr b"
      and m: "find_in_block b nm 0 = Inr m"
      by (auto simp: find_file_from.simps [of d nm i] split: sum.splits)
    then have res: "block_result d nm (unat i) m"
      by (auto simp: block_result_def)
    show ?thesis
    proof (cases m)
      case (Some c)
      with "1.prems" True b m have "r = Some (unat i, c)"
        by (simp add: find_file_from.simps [of d nm i])
      with lt res Some show ?thesis
        by auto
    next
      case None
      with "1.prems" True b m have "find_file_from d nm (i + 1) = Inr r"
        by (simp add: find_file_from.simps [of d nm i])
      with "1.IH" [OF True b m None] have
        "(r = None \<and> (\<forall>i'. unat (i + 1) \<le> i' \<and> i' < unat (num_entry_blocks d)
                        \<longrightarrow> block_result d nm i' None))
         \<or> (\<exists>k c. r = Some (k, c) \<and> unat (i + 1) \<le> k \<and> k < unat (num_entry_blocks d)
            \<and> block_result d nm k (Some c)
            \<and> (\<forall>i'. unat (i + 1) \<le> i' \<and> i' < k \<longrightarrow> block_result d nm i' None))"
        by simp
      moreover have "block_result d nm (unat i) None"
        using res None by simp
      then have "\<And>i'. unat i \<le> i' \<Longrightarrow> (Suc (unat i) \<le> i' \<Longrightarrow> block_result d nm i' None)
          \<Longrightarrow> block_result d nm i' None"
        by (metis le_antisym not_less_eq_eq)
      ultimately show ?thesis
        unfolding suc by (elim disjE exE conjE) (auto intro: Suc_leD)
    qed
  qed
qed

lemma compare_at_in:
  "read_slot (entry_blocks d) i = Inr b \<Longrightarrow> compare_at d (i, j) nm = compare_in b j nm"
  by (simp add: compare_at_def compare_in_def entry_at_def)

subsection \<open>The example of sixteen insertions\<close>

lemmas example_simps = insert_file_def find_entry_block_def find_entry_block_from.simps
  add_entry_block_def fresh_directory_def realloc_slots_def read_slot_def
  new_block_3 append_entry_block_with entry_count_block_with MAX_ENTRIES_PER_BLOCK_15
  ok_alloc_def directory_with_def

lemma sixteen_run:
  "insert_all cfg fresh_directory sixteen_insertions = Inr sixteen_directory"
  by (simp add: example_simps sixteen_insertions_def sixteen_directory_def fifteen_entries_def
      upt_rec)

lemma strcmp_new_entry_short:
  "length (cstring q) < MAX_FILENAME \<Longrightarrow>
     strcmp_buf (name (new_entry s ino)) q = Some (cstring s = cstring q)"
  by (simp add: new_entry_def strcmp_buf_strncpy)

lemmas find_simps = find_file_def find_file_from.simps find_in_block.simps read_slot_def
  directory_with_def block_with_def strcmp_new_entry_short cstring_Cons MAX_FILENAME_def
  MAX_ENTRIES_PER_BLOCK_15

lemma sixteen_find_first:
  "find_file sg sixteen_directory [1] = Inr (sixteen_directory, Some (0, 0))"
  by (simp add: sixteen_directory_def fifteen_entries_def upt_rec find_simps)

lemma sixteen_find_last:
  "find_file sg sixteen_directory [16] = Inr (sixteen_directory, Some (1, 0))"
  by (simp add: sixteen_directory_def fifteen_entries_def upt_rec find_simps)

lemma sixteen_route:
  "find_entry_block sf a sixteen_directory h = Inr (sixteen_directory, Some 1)"
  by (simp add: sixteen_directory_def fifteen_entries_def upt_rec find_entry_block_def
      find_entry_block_from.simps read_slot_def directory_with_def entry_count_block_with
      MAX_ENTRIES_PER_BLOCK_15)

subsection \<open>find\_file after insert\_file\<close>

lemma find_in_block_append:
  assumes ap: "append_entry b e = Inr b'"
    and c: "unat (entry_count (header b)) < MAX_ENTRIES_PER_BLOCK"
    and hit: "strcmp_buf (name e) nm = Some True"
  shows "find_in_block b nm j = Inr None \<Longrightarrow> unat j \<le> unat (entry_count (header b)) \<Longrightarrow>
           find_in_block b' nm j = Inr (Some (unat (entry_count (header b))))"
proof (induction "unat (entry_count (header b)) - unat j" arbitrary: j)
  case 0
  let ?c = "unat (entry_count (header b))"
  from 0 have j: "unat j = ?c" by simp
  have cnt: "unat (entry_count (header b')) = Suc ?c"
    using ap c by (rule append_entry_count)
  then have lt: "j < entry_count (header b')"
    by (simp add: word_less_nat_alt j)
  from ap have "read_slot (entries b') ?c = Inr e"
    by (auto simp: append_entry_Inr read_slot_Inr)
  with lt hit show ?case
    by (simp add: find_in_block.simps [of b' nm j] j)
next
  case (Suc m)
  let ?c = "unat (entry_count (header b))"
  from Suc.hyps(2) have jc: "unat j < ?c" by simp
  then have lt: "j < entry_count (header b)"
    by (simp add: word_less_nat_alt)
  then have suc: "unat (j + 1) = Suc (unat j)"
    by (rule word_less_Suc)
  have cnt: "unat (entry_count (header b')) = Suc ?c"
    using ap c by (rule append_entry_count)
  with jc have lt': "j < entry_count (header b')"
    by (simp add: word_less_nat_alt)
  from Suc.prems(1) lt obtain e0 where e0: "read_slot (entries b) (unat j) = Inr e0"
    and miss: "strcmp_buf (name e0) nm = Some False"
    and rest: "find_in_block b nm (j + 1) = Inr None"
    by (auto simp: find_in_block.simps [of b nm j] split: sum.splits option.splits bool.splits)
  from ap e0 jc have e0': "read_slot (entries b') (unat j) = Inr e0"
    by (auto simp: append_entry_Inr read_slot_Inr)
  have "find_in_block b' nm (j + 1) = Inr (Some ?c)"
    using Suc.hyps(2) jc by (intro Suc.hyps(1) rest) (simp_all add: suc)
  with lt' e0' miss show ?case
    by (simp add: find_in_block.simps [of b' nm j])
qed

lemma find_file_from_insert:
  assumes rd: "read_slot (entry_blocks d') k = Inr b'"
    and fb: "find_in_block b' nm 0 = Inr (Some c)"
    and k: "k \<le> unat (num_entry_blocks d)" "k < unat (num_entry_blocks d')"
    and same: "\<forall>j. j < k \<longrightarrow> entry_blocks d' ! j = entry_blocks d ! j"
  shows "find_file_from d nm i = Inr None \<Longrightarrow> unat i \<le> k \<Longrightarrow>
           find_file_from d' nm i = Inr (Some (k, c))"
proof (induction "k - unat i" arbitrary: i)
  case 0
  then have i: "unat i = k" by simp
  with k(2) have "i < num_entry_blocks d'"
    by (simp add: word_less_nat_alt)
  with rd fb show ?case
    by (simp add: find_file_from.simps [of d' nm i] i)
next
  case (Suc m)
  from Suc.hyps(2) have ik: "unat i < k" by simp
  with k have lt: "i < num_entry_blocks d" and lt': "i < num_entry_blocks d'"
    by (simp_all add: word_less_nat_alt)
  from lt have suc: "unat (i + 1) = Suc (unat i)"
    by (rule word_less_Suc)
  from Suc.prems(1) lt obtain b0 where b0: "read_slot (entry_blocks d) (unat i) = Inr b0"
    and miss: "find_in_block b0 nm 0 = Inr None"
    and rest: "find_file_from d nm (i + 1) = Inr None"
    by (auto simp: find_file_from.simps [of d nm i] split: sum.splits option.splits)
  from rd ik have "unat i < length (entry_blocks d')"
    by (simp add: read_slot_Inr)
  with b0 same ik have b0': "read_slot (entry_blocks d') (unat i) = Inr b0"
    by (simp add: read_slot_Inr)
  have "find_file_from d' nm (i + 1) = Inr (Some (k, c))"
    using Suc.hyps(2) ik by (intro Suc.hyps(1) rest) (simp_all add: suc)
  with lt' b0' miss show ?case
    by (simp add: find_file_from.simps [of d' nm i])
qed

lemma find_in_block_new: "find_in_block (new_block 3) nm 0 = Inr None"
  by (simp add: find_in_block.simps [of _ _ 0] new_block_def)

subsection \<open>Examples around the round trip\<close>

lemma duplicate_run:
  "insert_file cfg ok_alloc (directory_with [[new_entry [0x61] 1001]]) [0x61] 1002
     = Inr (directory_with [[new_entry [0x61] 1001, new_entry [0x61] 1002]])"
  using insert_file_single [of "[new_entry [0x61] 1001]" cfg ok_alloc "[0x61]" 1002]
  by (simp add: MAX_ENTRIES_PER_BLOCK_15)

lemma duplicate_find:
  "find_file sg (directory_with [[new_entry [0x61] 1001, new_entry [0x61] 1002]]) [0x61]
     = Inr (directory_with [[new_entry [0x61] 1001, new_entry [0x61] 1002]], Some (0, 0))"
  by (simp add: find_simps)

lemma duplicate_entry:
  "entry_at (directory_with [[new_entry [0x61] 1001, new_entry [0x61] 1002]]) (0, 0)
     = Inr (new_entry [0x61] 1001)"
  by (simp add: entry_at_def directory_with_def block_with_def read_slot_def)

lemma fresh_find: "find_file sg fresh_directory nm = Inr (fresh_directory, None)"
  by (simp add: find_file_def find_file_from.simps [of _ _ 0] fresh_directory_def)

lemma strcmp_buf_unterminated: "0 \<notin> set s \<Longrightarrow> strcmp_buf s (s @ q) = None"
  by (induction s) auto

lemma boundary_name_fault:
  "insert_file cfg ok_alloc fresh_directory (replicate 255 0x61) 1001
     = Inr (directory_with [[new_entry (replicate 255 0x61) 1001]])
   \<and> find_file sg (directory_with [[new_entry (replicate 255 0x61) 1001]]) (replicate 255 0x61)
     = Inl OutOfBounds"
proof
  show "insert_file cfg ok_alloc fresh_directory (replicate 255 0x61) 1001
     = Inr (directory_with [[new_entry (replicate 255 0x61) 1001]])"
    by (rule insert_file_fresh_with) (simp_all add: ok_alloc_def)
  have "name (new_entry (replicate 255 0x61) 1001) = replicate 255 0x61"
    by (simp add: new_entry_def strncpy_cstring cstring_replicate MAX_FILENAME_def)
  moreover have "strcmp_buf (replicate 255 (0x61 :: u8)) (replicate 255 0x61 @ []) = None"
    by (rule strcmp_buf_unterminated) simp
  ultimately have "strcmp_buf (name (new_entry (replicate 255 0x61) 1001)) (replicate 255 0x61)
      = None"
    by simp
  then show "find_file sg (directory_with [[new_entry (replicate 255 0x61) 1001]])
      (replicate 255 0x61) = Inl OutOfBounds"
    by (simp add: find_file_def find_file_from.simps [of _ _ 0] find_in_block.simps [of _ _ 0]
        read_slot_def directory_with_def block_with_def)
qed

lemma malloc_failure_no_record:
  "insert_file \<lparr>src_file = Benchmark, char_signed = sg\<rparr> \<lparr>realloc_ok = True, malloc_ok = False\<rparr>
       fresh_directory nm ino = Inr (fresh_directory\<lparr>entry_blocks := [None]\<rparr>)
   \<and> find_file sg (fresh_directory\<lparr>entry_blocks := [None]\<rparr>) nm
       = Inr (fresh_directory\<lparr>entry_blocks := [None]\<rparr>, None)"
  by (simp add: insert_file_def find_entry_block_def find_entry_block_from.simps [of _ _ _ 0]
      add_entry_block_def fresh_directory_def realloc_slots_def find_file_def
      find_file_from.simps [of _ _ 0])

section \<open>The claims\<close>

text \<open>
  C7, as stated, fails where plain \<open>char\<close> is signed: in \<open>hash + *name\<close> the byte 0x80 is
  promoted to the \<open>int\<close> -128 and enters the sum as 0xFFFFFF80. The hash of the one-byte
  name 0x80 is 0xFFFFFF80; the accumulator over the byte gives 0x80.
\<close>

theorem hash_filename_signed_counterexample:
  "hash_filename True [0x80] = 0xFFFFFF80
   \<and> spec_hash (map ucast (cstring [0x80 :: u8])) = 0x80"
proof
  show "hash_filename True [0x80] = 0xFFFFFF80"
    by (simp add: hash_filename_def char_to_u32_def)
  show "spec_hash (map ucast (cstring [0x80 :: u8])) = 0x80"
    by (simp add: spec_hash_def cstring_Cons)
qed

text \<open>
  C7, amended. Where plain \<open>char\<close> is unsigned, or every byte of the name is below 0x80,
  \<open>hash_filename\<close> equals the accumulator \<open>h = 0; h = (h << 5) + h + b\<close> over the bytes
  \<open>b\<close> of the name (as numbers from 0 to 255) in 32-bit wrap-around arithmetic.
  \<open>hash_filename\<close> reads nothing but the bytes of the name, so repeated calls with the
  same name, on any directory, return the same value.
\<close>

theorem hash_filename_spec_hash:
  assumes "\<not> sg \<or> (\<forall>c \<in> set (cstring nm). c < 0x80)"
  shows "hash_filename sg nm = spec_hash (map ucast (cstring nm))"
proof -
  have "char_to_u32 sg c = ucast c" if "c \<in> set (cstring nm)" for c
  proof (cases sg)
    case True
    with assms that have "c < 0x80"
      by simp
    then show ?thesis
      by (rule char_to_u32_ascii)
  next
    case False
    then show ?thesis
      by (simp add: char_to_u32_def)
  qed
  then have eq: "map (char_to_u32 sg) (cstring nm) = map ucast (cstring nm)"
    by (intro map_cong refl)
  show ?thesis
    unfolding hash_filename_def spec_hash_def hash_loop_foldl eq by (rule refl)
qed

theorem hash_filename_spec_hash_witness:
  "cstring [0x61, 0x62 :: u8] = [0x61, 0x62]
   \<and> (0x61 :: u8) < 0x80 \<and> (0x62 :: u8) < 0x80
   \<and> hash_filename True [0x61, 0x62] = spec_hash (map ucast (cstring [0x61, 0x62 :: u8]))
   \<and> hash_filename True [0x61, 0x62] = 3299"
proof -
  have c: "cstring [0x61, 0x62 :: u8] = [0x61, 0x62]"
    by (simp add: cstring_Cons)
  have b: "(0x61 :: u8) < 0x80" "(0x62 :: u8) < 0x80"
    by simp_all
  have h: "\<not> True \<or> (\<forall>c \<in> set (cstring [0x61, 0x62 :: u8]). c < 0x80)"
    using b by (simp add: c)
  have v: "spec_hash (map ucast (cstring [0x61, 0x62 :: u8])) = 3299"
    by (simp add: c spec_hash_def)
  from hash_filename_spec_hash [OF h] v c b show ?thesis
    by simp
qed

text \<open>
  C6. In every directory reached from a fresh one by any sequence of insertions, every
  block (the root, every index block, every entry block) satisfies
  \<open>entry_count * record_size + header_size \<le> block_size\<close> for the record kind of its
  type, and its \<open>entry_count\<close> is at most the capacity of that kind.
\<close>

theorem capacity_invariant:
  assumes "insert_all cfg fresh_directory ops = Inr d"
  shows "capacity_ok (root_block d)
       \<and> (\<forall>b. Some b \<in> set (index_blocks d) \<longrightarrow> capacity_ok b)
       \<and> (\<forall>b. Some b \<in> set (entry_blocks d) \<longrightarrow> capacity_ok b)"
proof -
  have "dir_inv d"
    using dir_inv_fresh assms by (rule insert_all_inv)
  then show ?thesis
    by (auto simp: dir_inv_def capacity_ok_root capacity_ok_entry)
qed

theorem capacity_invariant_witness:
  "insert_all \<lparr>src_file = Implementation, char_signed = True\<rparr> fresh_directory
       [(ok_alloc, [0x61], 1001)] = Inr (directory_with [[new_entry [0x61] 1001]])
   \<and> capacity_ok (root_block (directory_with [[new_entry [0x61] 1001]]))
   \<and> Some (block_with [new_entry [0x61] 1001])
         \<in> set (entry_blocks (directory_with [[new_entry [0x61] 1001]]))
   \<and> capacity_ok (block_with [new_entry [0x61] 1001])"
proof -
  let ?d = "directory_with [[new_entry [0x61] 1001]]"
  note run = insert_one_example [of "\<lparr>src_file = Implementation, char_signed = True\<rparr>"]
  have mem: "Some (block_with [new_entry [0x61] 1001]) \<in> set (entry_blocks ?d)"
    by (simp add: directory_with_def)
  from capacity_invariant [OF run] have "capacity_ok (root_block ?d)"
    and "\<forall>b. Some b \<in> set (entry_blocks ?d) \<longrightarrow> capacity_ok b"
    by simp_all
  with run mem show ?thesis
    by blast
qed

text \<open>
  C9. Insertion is not atomic in htree\_benchmark.c: when \<open>realloc\<close> fails in
  \<open>add_entry_block\<close>, the counter \<open>num_entry_blocks\<close> has already been incremented and
  \<open>entry_blocks\<close> has been overwritten with NULL, and neither is undone (the \<open>malloc\<close>
  failure path two lines below does undo the counter). \<open>insert_file\<close> returns normally
  with the count changed. On a fresh directory the count goes from 0 to 1 with no block,
  and the next \<open>find_file\<close> reads through the NULL array; on a directory whose single
  block is full the count goes from 1 to 2 and the block with its fifteen records is no
  longer reachable.
\<close>

theorem insert_file_realloc_failure:
  "insert_file \<lparr>src_file = Benchmark, char_signed = True\<rparr>
       \<lparr>realloc_ok = False, malloc_ok = True\<rparr> fresh_directory [0x61] 1001
     = Inr (fresh_directory\<lparr>num_entry_blocks := 1\<rparr>)
   \<and> num_entry_blocks fresh_directory = 0
   \<and> find_file True (fresh_directory\<lparr>num_entry_blocks := 1\<rparr>) [0x61] = Inl NullDeref
   \<and> insert_file \<lparr>src_file = Benchmark, char_signed = True\<rparr>
       \<lparr>realloc_ok = False, malloc_ok = True\<rparr> (directory_with [fifteen_entries]) [0x61] 1001
     = Inr ((directory_with [fifteen_entries])\<lparr>num_entry_blocks := 2, entry_blocks := []\<rparr>)
   \<and> num_entry_blocks (directory_with [fifteen_entries]) = 1
   \<and> entry_blocks (directory_with [fifteen_entries]) = [Some (block_with fifteen_entries)]"
proof (intro conjI)
  show "insert_file \<lparr>src_file = Benchmark, char_signed = True\<rparr>
       \<lparr>realloc_ok = False, malloc_ok = True\<rparr> fresh_directory [0x61] 1001
     = Inr (fresh_directory\<lparr>num_entry_blocks := 1\<rparr>)"
    by (simp add: insert_file_def find_entry_block_def find_entry_block_from.simps [of _ _ _ 0]
        add_entry_block_def fresh_directory_def)
  show "num_entry_blocks fresh_directory = 0"
    by (simp add: fresh_directory_def)
  show "find_file True (fresh_directory\<lparr>num_entry_blocks := 1\<rparr>) [0x61] = Inl NullDeref"
    by (simp add: fresh_directory_def find_file_def find_file_from.simps [of _ _ 0]
        read_slot_def)
  show "insert_file \<lparr>src_file = Benchmark, char_signed = True\<rparr>
       \<lparr>realloc_ok = False, malloc_ok = True\<rparr> (directory_with [fifteen_entries]) [0x61] 1001
     = Inr ((directory_with [fifteen_entries])\<lparr>num_entry_blocks := 2, entry_blocks := []\<rparr>)"
    by (rule insert_file_full_realloc_failure) (simp add: fifteen_entries_def MAX_ENTRIES_PER_BLOCK_15)
  show "num_entry_blocks (directory_with [fifteen_entries]) = 1"
    by (simp add: directory_with_def)
  show "entry_blocks (directory_with [fifteen_entries]) = [Some (block_with fifteen_entries)]"
    by (simp add: directory_with_def)
qed

text \<open>
  C10. \<open>find_file\<close> performs no store: whenever it returns, the directory (every block's
  header and records, both block sequences and both counters) is the directory it was
  called on.
\<close>

theorem find_file_frame:
  "find_file sg d nm = Inr (d', r) \<Longrightarrow> d' = d"
  by (auto simp: find_file_def split: sum.splits)

theorem find_file_frame_witness:
  "find_file True sixteen_directory [16] = Inr (sixteen_directory, Some (1, 0))
   \<and> sixteen_directory = sixteen_directory"
proof -
  have r: "find_file True sixteen_directory [16] = Inr (sixteen_directory, Some (1, 0))"
    by (rule sixteen_find_last)
  show ?thesis
    by (rule conjI [OF r find_file_frame [OF r]])
qed

text \<open>
  C8. Starting from a fresh directory, with the first allocation succeeding, each of the
  first \<open>MAX_ENTRIES_PER_BLOCK\<close> insertions leaves exactly one entry block; the
  insertion after them allocates exactly one new entry block (two blocks in all).
\<close>

theorem one_block_until_full:
  assumes "length ops = MAX_ENTRIES_PER_BLOCK"
    and "realloc_ok (fst (hd ops))" and "malloc_ok (fst (hd ops))"
    and "realloc_ok a" and "malloc_ok a"
  shows "(\<forall>n. 0 < n \<and> n \<le> MAX_ENTRIES_PER_BLOCK \<longrightarrow>
            (\<exists>d. insert_all cfg fresh_directory (take n ops) = Inr d
                \<and> num_entry_blocks d = 1 \<and> length (entry_blocks d) = 1))
       \<and> (\<exists>d d'. insert_all cfg fresh_directory ops = Inr d
                \<and> insert_file cfg a d nm ino = Inr d'
                \<and> num_entry_blocks d = 1 \<and> length (entry_blocks d) = 1
                \<and> num_entry_blocks d' = 2 \<and> length (entry_blocks d') = 2)"
proof (intro conjI allI impI)
  fix n
  assume n: "0 < n \<and> n \<le> MAX_ENTRIES_PER_BLOCK"
  with assms(1) have "take n ops \<noteq> []" and "length (take n ops) \<le> MAX_ENTRIES_PER_BLOCK"
    and "hd (take n ops) = hd ops"
    by (auto simp: MAX_ENTRIES_PER_BLOCK_15)
  with assms(2,3) have "insert_all cfg fresh_directory (take n ops)
      = Inr (directory_with [map entry_of (take n ops)])"
    by (intro insert_all_fresh) simp_all
  then show "\<exists>d. insert_all cfg fresh_directory (take n ops) = Inr d
                \<and> num_entry_blocks d = 1 \<and> length (entry_blocks d) = 1"
    by (simp add: directory_with_def)
next
  from assms(1) have ne: "ops \<noteq> []"
    by (auto simp: MAX_ENTRIES_PER_BLOCK_15)
  with assms(1,2,3) have run: "insert_all cfg fresh_directory ops
      = Inr (directory_with [map entry_of ops])"
    by (intro insert_all_fresh) simp_all
  have "insert_file cfg a (directory_with [map entry_of ops]) nm ino
      = Inr (directory_with [map entry_of ops, [new_entry nm ino]])"
    using assms(1,4,5) by (intro insert_file_single_full) simp_all
  with run show "\<exists>d d'. insert_all cfg fresh_directory ops = Inr d
                \<and> insert_file cfg a d nm ino = Inr d'
                \<and> num_entry_blocks d = 1 \<and> length (entry_blocks d) = 1
                \<and> num_entry_blocks d' = 2 \<and> length (entry_blocks d') = 2"
    by (simp add: directory_with_def)
qed

theorem one_block_until_full_witness:
  "length (replicate 15 (ok_alloc, [0x61 :: u8], 1001 :: u32)) = MAX_ENTRIES_PER_BLOCK
   \<and> realloc_ok (fst (hd (replicate 15 (ok_alloc, [0x61 :: u8], 1001 :: u32))))
   \<and> malloc_ok (fst (hd (replicate 15 (ok_alloc, [0x61 :: u8], 1001 :: u32))))
   \<and> realloc_ok ok_alloc \<and> malloc_ok ok_alloc
   \<and> (\<exists>d. insert_all \<lparr>src_file = Implementation, char_signed = True\<rparr> fresh_directory
              (take 15 (replicate 15 (ok_alloc, [0x61], 1001))) = Inr d
          \<and> num_entry_blocks d = 1 \<and> length (entry_blocks d) = 1)
   \<and> (\<exists>d d'. insert_all \<lparr>src_file = Implementation, char_signed = True\<rparr> fresh_directory
              (replicate 15 (ok_alloc, [0x61], 1001)) = Inr d
          \<and> insert_file \<lparr>src_file = Implementation, char_signed = True\<rparr> ok_alloc d
                [0x62] 1002 = Inr d'
          \<and> num_entry_blocks d = 1 \<and> length (entry_blocks d) = 1
          \<and> num_entry_blocks d' = 2 \<and> length (entry_blocks d') = 2)"
proof -
  let ?ops = "replicate 15 (ok_alloc, [0x61 :: u8], 1001 :: u32)"
  have h1: "length ?ops = MAX_ENTRIES_PER_BLOCK"
    by (simp add: MAX_ENTRIES_PER_BLOCK_15)
  have h2: "realloc_ok (fst (hd ?ops))" and h3: "malloc_ok (fst (hd ?ops))"
    and h4: "realloc_ok ok_alloc" and h5: "malloc_ok ok_alloc"
    by (simp_all add: ok_alloc_def)
  note r = one_block_until_full [OF h1 h2 h3 h4 h5,
      of "\<lparr>src_file = Implementation, char_signed = True\<rparr>" "[0x62]" 1002]
  from r have "\<exists>d. insert_all \<lparr>src_file = Implementation, char_signed = True\<rparr>
              fresh_directory (take 15 ?ops) = Inr d
          \<and> num_entry_blocks d = 1 \<and> length (entry_blocks d) = 1"
    by (simp add: MAX_ENTRIES_PER_BLOCK_15)
  with r h1 h2 h3 h4 h5 show ?thesis
    by blast
qed




text \<open>
  C5, as stated, fails: no insertion writes a boundary record. After one insertion there
  is one entry block and the root block's list of index records is empty, so no hash is
  covered.
\<close>

theorem partition_invariant_counterexample:
  "insert_all \<lparr>src_file = Implementation, char_signed = True\<rparr> fresh_directory
       [(ok_alloc, [0x61], 1001)] = Inr (directory_with [[new_entry [0x61] 1001]])
   \<and> num_entry_blocks (directory_with [[new_entry [0x61] 1001]]) = 1
   \<and> \<not> partition_invariant (index_records (root_block (directory_with [[new_entry [0x61] 1001]])))
          (unat (num_entry_blocks (directory_with [[new_entry [0x61] 1001]])))"
proof (intro conjI)
  show "insert_all \<lparr>src_file = Implementation, char_signed = True\<rparr> fresh_directory
       [(ok_alloc, [0x61], 1001)] = Inr (directory_with [[new_entry [0x61] 1001]])"
    by (rule insert_one_example)
  show "num_entry_blocks (directory_with [[new_entry [0x61] 1001]]) = 1"
    by (simp add: directory_with_def)
  show "\<not> partition_invariant
          (index_records (root_block (directory_with [[new_entry [0x61] 1001]])))
          (unat (num_entry_blocks (directory_with [[new_entry [0x61] 1001]])))"
    by (simp add: directory_with_def index_records_new_block partition_invariant_def)
qed

text \<open>
  C5, amended. For every sequence of insertions from a fresh directory, the root block's
  \<open>entry_count\<close> stays 0 and no index block is created: the directory never holds a
  boundary record.
\<close>

theorem no_boundary_records:
  assumes "insert_all cfg fresh_directory ops = Inr d"
  shows "entry_count (header (root_block d)) = 0 \<and> index_records (root_block d) = []
       \<and> index_blocks d = [] \<and> num_index_blocks d = 0"
proof -
  have "dir_inv d"
    using dir_inv_fresh assms by (rule insert_all_inv)
  then show ?thesis
    by (simp add: dir_inv_def index_records_new_block) (simp add: new_block_def)
qed

theorem no_boundary_records_witness:
  "insert_all \<lparr>src_file = Implementation, char_signed = True\<rparr> fresh_directory
       [(ok_alloc, [0x61], 1001)] = Inr (directory_with [[new_entry [0x61] 1001]])
   \<and> entry_count (header (root_block (directory_with [[new_entry [0x61] 1001]]))) = 0
   \<and> index_records (root_block (directory_with [[new_entry [0x61] 1001]])) = []
   \<and> index_blocks (directory_with [[new_entry [0x61] 1001]]) = []
   \<and> num_index_blocks (directory_with [[new_entry [0x61] 1001]]) = 0"
proof -
  note run = insert_one_example [of "\<lparr>src_file = Implementation, char_signed = True\<rparr>"]
  show ?thesis
    by (rule conjI [OF run no_boundary_records [OF run]])
qed

text \<open>
  C4, as stated, fails: \<open>insert_file\<close> has no length check and no error result.
  Inserting a 300-byte name into a fresh directory returns normally, allocates the first
  entry block and stores a record: \<open>stats()\<close> goes from (0, 0, 0) to (1, 0, 1).
\<close>

theorem name_too_long_counterexample:
  "length (cstring (replicate 300 (0x61 :: u8))) = 300
   \<and> insert_file \<lparr>src_file = Implementation, char_signed = True\<rparr> ok_alloc fresh_directory
        (replicate 300 0x61) 1001
       = Inr (directory_with [[new_entry (replicate 300 0x61) 1001]])
   \<and> stats fresh_directory = (0, 0, 0)
   \<and> stats (directory_with [[new_entry (replicate 300 0x61) 1001]]) = (1, 0, 1)"
proof (intro conjI)
  show "length (cstring (replicate 300 (0x61 :: u8))) = 300"
    by (simp add: cstring_replicate)
  show "insert_file \<lparr>src_file = Implementation, char_signed = True\<rparr> ok_alloc fresh_directory
        (replicate 300 0x61) 1001
       = Inr (directory_with [[new_entry (replicate 300 0x61) 1001]])"
    by (rule insert_file_fresh_with) (simp_all add: ok_alloc_def)
  show "stats fresh_directory = (0, 0, 0)"
    by (rule stats_fresh)
  show "stats (directory_with [[new_entry (replicate 300 0x61) 1001]]) = (1, 0, 1)"
    by (rule stats_one)
qed

text \<open>
  C4, amended. A name longer than 255 bytes is not rejected: \<open>insert_file\<close> has no
  length check and no error result, and whenever it returns with the allocations
  succeeding, a record carrying the inserted inode has been stored and \<open>total_entries\<close>
  has grown by one.
\<close>

theorem insert_file_long_name:
  assumes "MAX_FILENAME < length (cstring nm)"
    and "insert_file cfg a d nm ino = Inr d'"
    and "realloc_ok a" and "malloc_ok a"
  shows "total_entries d' = Suc (total_entries d)
       \<and> (\<exists>p e. entry_at d' p = Inr e \<and> inode e = ino)"
proof
  show "total_entries d' = Suc (total_entries d)"
    using assms(2-4) by (rule insert_file_total_entries)
  from assms(2-4) obtain p where "entry_at d' p = Inr (new_entry nm ino)"
    using insert_file_stored by blast
  moreover have "inode (new_entry nm ino) = ino"
    by (simp add: new_entry_def)
  ultimately show "\<exists>p e. entry_at d' p = Inr e \<and> inode e = ino"
    by blast
qed

theorem insert_file_long_name_witness:
  "MAX_FILENAME < length (cstring (replicate 300 (0x61 :: u8)))
   \<and> insert_file \<lparr>src_file = Implementation, char_signed = True\<rparr> ok_alloc fresh_directory
        (replicate 300 0x61) 1001
       = Inr (directory_with [[new_entry (replicate 300 0x61) 1001]])
   \<and> realloc_ok ok_alloc \<and> malloc_ok ok_alloc
   \<and> total_entries (directory_with [[new_entry (replicate 300 0x61) 1001]])
       = Suc (total_entries fresh_directory)
   \<and> (\<exists>p e. entry_at (directory_with [[new_entry (replicate 300 0x61) 1001]]) p = Inr e
            \<and> inode e = 1001)"
proof -
  have h1: "MAX_FILENAME < length (cstring (replicate 300 (0x61 :: u8)))"
    by (simp add: cstring_replicate MAX_FILENAME_def)
  have h2: "insert_file \<lparr>src_file = Implementation, char_signed = True\<rparr> ok_alloc
        fresh_directory (replicate 300 0x61) 1001
       = Inr (directory_with [[new_entry (replicate 300 0x61) 1001]])"
    by (rule insert_file_fresh_with) (simp_all add: ok_alloc_def)
  have h3: "realloc_ok ok_alloc" and h4: "malloc_ok ok_alloc"
    by (simp_all add: ok_alloc_def)
  from insert_file_long_name [OF h1 h2 h3 h4] h1 h2 h3 h4 show ?thesis
    by (intro conjI) blast+
qed

text \<open>
  C2, as stated, fails: \<open>find_file\<close> calls no routing at all and visits the entry blocks
  in sequence. After sixteen insertions of distinct names there are two entry blocks;
  routing (\<open>find_entry_block\<close>) returns block 1 for every hash, yet \<open>find_file\<close> of
  the first name returns the record at block 0, slot 0, and \<open>find_file\<close> of the last
  name returns a record of block 1 after all fifteen records of block 0 were compared.
\<close>

theorem find_file_one_block_counterexample:
  "insert_all \<lparr>src_file = Benchmark, char_signed = True\<rparr> fresh_directory
       sixteen_insertions = Inr sixteen_directory
   \<and> find_entry_block Benchmark ok_alloc sixteen_directory (hash_filename True [1])
       = Inr (sixteen_directory, Some 1)
   \<and> find_file True sixteen_directory [1] = Inr (sixteen_directory, Some (0, 0))
   \<and> find_file True sixteen_directory [16] = Inr (sixteen_directory, Some (1, 0))"
  by (intro conjI) (rule sixteen_run sixteen_route sixteen_find_first sixteen_find_last)+

text \<open>
  C2, amended. \<open>find_file\<close> scans every entry block in sequence order, and within a
  block the records in slot order, comparing names with \<open>strcmp\<close>. When it returns a
  record, that record is stored, matches, and every stored record scanned before it does
  not match; when it returns NULL, no stored record of any entry block matches.
\<close>

theorem find_file_first_match:
  assumes "find_file sg d nm = Inr (d', r)"
  shows "(r = None \<longrightarrow> (\<forall>q. stored d q \<longrightarrow> compare_at d q nm = Some False))
       \<and> (\<forall>p. r = Some p \<longrightarrow>
             stored d p \<and> compare_at d p nm = Some True
             \<and> (\<forall>q. stored d q \<and> scanned_before q p \<longrightarrow> compare_at d q nm = Some False))"
proof -
  from assms have ff: "find_file_from d nm 0 = Inr r"
    by (auto simp: find_file_def split: sum.splits)
  have none: "compare_at d (i, j) nm = Some False"
    if "block_result d nm i None" and "read_slot (entry_blocks d) i = Inr b"
      and "j < unat (entry_count (header b))" for i j b
  proof -
    from that(1,2) have "find_in_block b nm 0 = Inr None"
      by (auto simp: block_result_def)
    from find_in_block_shape [OF this] that(3) have "compare_in b j nm = Some False"
      by simp
    with that(2) show ?thesis
      by (simp add: compare_at_in)
  qed
  from find_file_from_shape [OF ff]
  consider (absent) "r = None"
      "\<forall>i'. i' < unat (num_entry_blocks d) \<longrightarrow> block_result d nm i' None"
    | (found) k c where "r = Some (k, c)" "k < unat (num_entry_blocks d)"
      "block_result d nm k (Some c)" "\<forall>i'. i' < k \<longrightarrow> block_result d nm i' None"
    by auto
  then show ?thesis
  proof cases
    case absent
    then show ?thesis
      by (auto simp: stored_def intro: none)
  next
    case found
    from found(3) obtain b where b: "read_slot (entry_blocks d) k = Inr b"
      and fb: "find_in_block b nm 0 = Inr (Some c)"
      by (auto simp: block_result_def)
    from find_in_block_shape [OF fb] have c: "c < unat (entry_count (header b))"
      and hit: "compare_in b c nm = Some True"
      and miss: "\<forall>j'. j' < c \<longrightarrow> compare_in b j' nm = Some False"
      by auto
    have "stored d (k, c)"
      using found(2) b c by (auto simp: stored_def)
    moreover have "compare_at d (k, c) nm = Some True"
      using b hit by (simp add: compare_at_in)
    moreover have "compare_at d q nm = Some False"
      if "stored d q" and "scanned_before q (k, c)" for q
    proof -
      obtain i j where q: "q = (i, j)" by (cases q)
      from that(1) obtain b0 where b0: "read_slot (entry_blocks d) i = Inr b0"
        and j: "j < unat (entry_count (header b0))"
        by (auto simp: stored_def q)
      from that(2) consider "i < k" | "i = k" "j < c"
        by (auto simp: scanned_before_def q)
      then show ?thesis
      proof cases
        case 1
        with found(4) have "block_result d nm i None" by simp
        then show ?thesis
          unfolding q using b0 j by (rule none)
      next
        case 2
        with b b0 have "b0 = b" by simp
        with miss 2 b show ?thesis
          by (simp add: q compare_at_in)
      qed
    qed
    ultimately show ?thesis
      using found(1) by auto
  qed
qed

theorem find_file_first_match_witness:
  "find_file True sixteen_directory [16] = Inr (sixteen_directory, Some (1, 0))
   \<and> stored sixteen_directory (1, 0)
   \<and> compare_at sixteen_directory (1, 0) [16] = Some True
   \<and> stored sixteen_directory (0, 3) \<and> scanned_before (0, 3) (1, 0)
   \<and> compare_at sixteen_directory (0, 3) [16] = Some False"
proof -
  have h: "find_file True sixteen_directory [16] = Inr (sixteen_directory, Some (1, 0))"
    by (rule sixteen_find_last)
  have s: "stored sixteen_directory (0, 3)"
    by (simp add: stored_def sixteen_directory_def fifteen_entries_def directory_with_def
        read_slot_def entry_count_block_with MAX_ENTRIES_PER_BLOCK_15)
  have b: "scanned_before (0, 3) (1, 0)"
    by (simp add: scanned_before_def)
  from find_file_first_match [OF h] have "stored sixteen_directory (1, 0)"
    and "compare_at sixteen_directory (1, 0) [16] = Some True"
    and "\<forall>q. stored sixteen_directory q \<and> scanned_before q (1, 0)
           \<longrightarrow> compare_at sixteen_directory q [16] = Some False"
    by simp_all
  with h s b show ?thesis
    by blast
qed

text \<open>
  C1, as stated, fails: \<open>insert_file\<close> does not look for an existing record, and
  \<open>find_file\<close> returns the first match in scan order. After inserting the name "a"
  with inode 1001 and then again with inode 1002, \<open>find_file\<close> returns the record at
  block 0, slot 0, whose inode is 1001, not the inserted 1002.
\<close>

theorem insert_then_find_counterexample:
  "insert_all \<lparr>src_file = Benchmark, char_signed = True\<rparr> fresh_directory
       [(ok_alloc, [0x61], 1001)] = Inr (directory_with [[new_entry [0x61] 1001]])
   \<and> insert_file \<lparr>src_file = Benchmark, char_signed = True\<rparr> ok_alloc
       (directory_with [[new_entry [0x61] 1001]]) [0x61] 1002
       = Inr (directory_with [[new_entry [0x61] 1001, new_entry [0x61] 1002]])
   \<and> find_file True (directory_with [[new_entry [0x61] 1001, new_entry [0x61] 1002]]) [0x61]
       = Inr (directory_with [[new_entry [0x61] 1001, new_entry [0x61] 1002]], Some (0, 0))
   \<and> entry_at (directory_with [[new_entry [0x61] 1001, new_entry [0x61] 1002]]) (0, 0)
       = Inr (new_entry [0x61] 1001)
   \<and> inode (new_entry [0x61] 1001) = 1001 \<and> (1001 :: u32) \<noteq> 1002"
proof (intro conjI)
  show "insert_all \<lparr>src_file = Benchmark, char_signed = True\<rparr> fresh_directory
       [(ok_alloc, [0x61], 1001)] = Inr (directory_with [[new_entry [0x61] 1001]])"
    by (rule insert_one_example)
  show "insert_file \<lparr>src_file = Benchmark, char_signed = True\<rparr> ok_alloc
       (directory_with [[new_entry [0x61] 1001]]) [0x61] 1002
       = Inr (directory_with [[new_entry [0x61] 1001, new_entry [0x61] 1002]])"
    by (rule duplicate_run)
  show "find_file True (directory_with [[new_entry [0x61] 1001, new_entry [0x61] 1002]]) [0x61]
       = Inr (directory_with [[new_entry [0x61] 1001, new_entry [0x61] 1002]], Some (0, 0))"
    by (rule duplicate_find)
  show "entry_at (directory_with [[new_entry [0x61] 1001, new_entry [0x61] 1002]]) (0, 0)
       = Inr (new_entry [0x61] 1001)"
    by (rule duplicate_entry)
  show "inode (new_entry [0x61] 1001) = 1001"
    by (simp add: new_entry_def)
  show "(1001 :: u32) \<noteq> 1002"
    by simp
qed

text \<open>
  C1, amended. For every name of fewer than 255 bytes that no stored record matches
  (\<open>find_file\<close> returns NULL for it) and every inode: when \<open>insert_file\<close> returns with
  its allocations succeeding, \<open>find_file\<close> of the name returns a record whose inode is
  the inserted inode. This holds on every directory state, reachable or not.
\<close>

theorem insert_then_find:
  assumes short: "length (cstring nm) < MAX_FILENAME"
    and absent: "find_file sg d nm = Inr (d, None)"
    and ins: "insert_file cfg a d nm ino = Inr d'"
    and ok: "realloc_ok a" "malloc_ok a"
  shows "\<exists>p e. find_file sg d' nm = Inr (d', Some p) \<and> entry_at d' p = Inr e \<and> inode e = ino"
proof -
  let ?e = "new_entry nm ino"
  let ?n = "unat (num_entry_blocks d)"
  have hit: "strcmp_buf (name ?e) nm = Some True"
    using short by (rule strcmp_new_entry)
  from absent have ff: "find_file_from d nm 0 = Inr None"
    by (auto simp: find_file_def split: sum.splits)
  from find_file_from_shape [OF ff]
  have blocks: "\<forall>i. i < ?n \<longrightarrow> block_result d nm i None"
    by simp
  have goal: "\<exists>p e. find_file sg d' nm = Inr (d', Some p) \<and> entry_at d' p = Inr e \<and> inode e = ino"
    if rd: "read_slot (entry_blocks d') k = Inr b'"
      and slot: "read_slot (entries b') c = Inr ?e"
      and fb: "find_in_block b' nm 0 = Inr (Some c)"
      and k: "k \<le> ?n" "k < unat (num_entry_blocks d')"
      and same: "\<forall>j. j < k \<longrightarrow> entry_blocks d' ! j = entry_blocks d ! j"
    for k b' c
  proof -
    have "find_file_from d' nm 0 = Inr (Some (k, c))"
      using rd fb k same ff by (rule find_file_from_insert) simp
    then have "find_file sg d' nm = Inr (d', Some (k, c))"
      by (simp add: find_file_def)
    moreover have "entry_at d' (k, c) = Inr ?e"
      using rd slot by (simp add: entry_at_Inr)
    moreover have "inode ?e = ino"
      by (simp add: new_entry_def)
    ultimately show ?thesis
      by blast
  qed
  from insert_file_cases [OF ins ok] show ?thesis
  proof (elim disjE exE conjE)
    fix k b b'
    assume kn: "k < ?n" and b: "read_slot (entry_blocks d) k = Inr b"
      and c: "unat (entry_count (header b)) < MAX_ENTRIES_PER_BLOCK"
      and ap: "append_entry b ?e = Inr b'"
      and d': "d' = d\<lparr>entry_blocks := (entry_blocks d)[k := Some b']\<rparr>"
    from blocks kn b have "find_in_block b nm 0 = Inr None"
      by (auto simp: block_result_def)
    with ap c hit have fb: "find_in_block b' nm 0 = Inr (Some (unat (entry_count (header b))))"
      by (intro find_in_block_append) simp_all
    from b have rd: "read_slot (entry_blocks d') k = Inr b'"
      by (simp add: d' read_slot_Inr)
    from ap have slot: "read_slot (entries b') (unat (entry_count (header b))) = Inr ?e"
      by (auto simp: append_entry_Inr read_slot_Inr)
    from kn have kle: "k \<le> ?n" by simp
    show ?thesis
      using rd slot fb kle by (rule goal) (use kn in \<open>simp_all add: d'\<close>)
  next
    fix b'
    assume full: "\<forall>j. j < ?n \<longrightarrow> slot_full d j"
      and suc: "unat (num_entry_blocks d + 1) = Suc ?n"
      and ap: "append_entry (new_block 3) ?e = Inr b'"
      and d': "d' = d\<lparr>num_entry_blocks := num_entry_blocks d + 1,
                     entry_blocks := take ?n (entry_blocks d) @ [Some b']\<rparr>"
    have len: "?n \<le> length (entry_blocks d)"
      using full by (rule all_full_length)
    have z: "unat (entry_count (header (new_block 3))) = 0"
      by (simp add: new_block_def)
    have "find_in_block b' nm 0 = Inr (Some (unat (entry_count (header (new_block 3)))))"
      using ap _ hit find_in_block_new
      by (rule find_in_block_append) (simp_all add: z MAX_ENTRIES_PER_BLOCK_15)
    then have fb: "find_in_block b' nm 0 = Inr (Some 0)"
      by (simp add: z)
    from len have rd: "read_slot (entry_blocks d') ?n = Inr b'"
      by (simp add: d' read_slot_Inr nth_append)
    from ap have slot: "read_slot (entries b') 0 = Inr ?e"
      by (auto simp: append_entry_Inr read_slot_Inr z)
    show ?thesis
      using rd slot fb by (rule goal) (simp_all add: d' suc nth_append len)
  qed
qed

theorem insert_then_find_witness:
  "length (cstring [0x61]) < MAX_FILENAME
   \<and> find_file True fresh_directory [0x61] = Inr (fresh_directory, None)
   \<and> insert_file \<lparr>src_file = Benchmark, char_signed = True\<rparr> ok_alloc fresh_directory
        [0x61] 1001 = Inr (directory_with [[new_entry [0x61] 1001]])
   \<and> realloc_ok ok_alloc \<and> malloc_ok ok_alloc
   \<and> (\<exists>p e. find_file True (directory_with [[new_entry [0x61] 1001]]) [0x61]
               = Inr (directory_with [[new_entry [0x61] 1001]], Some p)
           \<and> entry_at (directory_with [[new_entry [0x61] 1001]]) p = Inr e
           \<and> inode e = 1001)"
proof -
  have h1: "length (cstring [0x61]) < MAX_FILENAME"
    by (simp add: cstring_Cons MAX_FILENAME_def)
  have h2: "find_file True fresh_directory [0x61] = Inr (fresh_directory, None)"
    by (rule fresh_find)
  have h3: "insert_file \<lparr>src_file = Benchmark, char_signed = True\<rparr> ok_alloc
        fresh_directory [0x61] 1001 = Inr (directory_with [[new_entry [0x61] 1001]])"
    by (rule insert_file_fresh_with) (simp_all add: ok_alloc_def)
  have h4: "realloc_ok ok_alloc" and h5: "malloc_ok ok_alloc"
    by (simp_all add: ok_alloc_def)
  from insert_then_find [OF h1 h2 h3 h4 h5] h1 h2 h3 h4 h5 show ?thesis
    by (intro conjI)
qed

end
